theory Spec2Isabelle
  imports Main "HOL-Library.Monad_Syntax"
begin

section \<open>Characters and strings\<close>

text \<open>
  The translator works on \<^verbatim>\<open>std::wstring\<close>: a sequence of code points. A code point is
  a natural number here, a string is a list of them, and a \<^verbatim>\<open>char_iterator\<close> is an
  offset into the string it belongs to.
\<close>

type_synonym wchar = nat
type_synonym wstring = "wchar list"

definition wstr :: "string \<Rightarrow> wstring" where
  "wstr s = map of_char s"

abbreviation (input) C_HT :: wchar where "C_HT \<equiv> 9"
abbreviation (input) C_LF :: wchar where "C_LF \<equiv> 10"
abbreviation (input) C_SP :: wchar where "C_SP \<equiv> 32"
abbreviation (input) C_bang :: wchar where "C_bang \<equiv> 33"
abbreviation (input) C_dquote :: wchar where "C_dquote \<equiv> 34"
abbreviation (input) C_hash :: wchar where "C_hash \<equiv> 35"
abbreviation (input) C_percent :: wchar where "C_percent \<equiv> 37"
abbreviation (input) C_amp :: wchar where "C_amp \<equiv> 38"
abbreviation (input) C_squote :: wchar where "C_squote \<equiv> 39"
abbreviation (input) C_lparen :: wchar where "C_lparen \<equiv> 40"
abbreviation (input) C_rparen :: wchar where "C_rparen \<equiv> 41"
abbreviation (input) C_star :: wchar where "C_star \<equiv> 42"
abbreviation (input) C_plus :: wchar where "C_plus \<equiv> 43"
abbreviation (input) C_comma :: wchar where "C_comma \<equiv> 44"
abbreviation (input) C_minus :: wchar where "C_minus \<equiv> 45"
abbreviation (input) C_dot :: wchar where "C_dot \<equiv> 46"
abbreviation (input) C_slash :: wchar where "C_slash \<equiv> 47"
abbreviation (input) C_0 :: wchar where "C_0 \<equiv> 48"
abbreviation (input) C_9 :: wchar where "C_9 \<equiv> 57"
abbreviation (input) C_colon :: wchar where "C_colon \<equiv> 58"
abbreviation (input) C_semi :: wchar where "C_semi \<equiv> 59"
abbreviation (input) C_lt :: wchar where "C_lt \<equiv> 60"
abbreviation (input) C_equals :: wchar where "C_equals \<equiv> 61"
abbreviation (input) C_gt :: wchar where "C_gt \<equiv> 62"
abbreviation (input) C_A :: wchar where "C_A \<equiv> 65"
abbreviation (input) C_F :: wchar where "C_F \<equiv> 70"
abbreviation (input) C_G :: wchar where "C_G \<equiv> 71"
abbreviation (input) C_Z :: wchar where "C_Z \<equiv> 90"
abbreviation (input) C_lbracket :: wchar where "C_lbracket \<equiv> 91"
abbreviation (input) C_backslash :: wchar where "C_backslash \<equiv> 92"
abbreviation (input) C_rbracket :: wchar where "C_rbracket \<equiv> 93"
abbreviation (input) C_caret :: wchar where "C_caret \<equiv> 94"
abbreviation (input) C_underscore :: wchar where "C_underscore \<equiv> 95"
abbreviation (input) C_backtick :: wchar where "C_backtick \<equiv> 96"
abbreviation (input) C_a :: wchar where "C_a \<equiv> 97"
abbreviation (input) C_f :: wchar where "C_f \<equiv> 102"
abbreviation (input) C_g :: wchar where "C_g \<equiv> 103"
abbreviation (input) C_x :: wchar where "C_x \<equiv> 120"
abbreviation (input) C_z :: wchar where "C_z \<equiv> 122"
abbreviation (input) C_lbrace :: wchar where "C_lbrace \<equiv> 123"
abbreviation (input) C_rbrace :: wchar where "C_rbrace \<equiv> 125"
abbreviation (input) C_DEL :: wchar where "C_DEL \<equiv> 127"

text \<open>The characters of \<^verbatim>\<open>[s, e)\<close> in a buffer.\<close>

definition slice :: "wstring \<Rightarrow> nat \<Rightarrow> nat \<Rightarrow> wstring" where
  "slice buf s e = take (e - s) (drop s buf)"

section \<open>Token kinds\<close>

text \<open>
  The anonymous enumeration of the source: kinds are compared with \<open>\<le>\<close> and index the
  table \<open>kindname\<close>, so they are the integers the compiler gives them.
\<close>

abbreviation (input) BLANK :: nat where "BLANK \<equiv> 0"
abbreviation (input) LINE :: nat where "LINE \<equiv> 1"
abbreviation (input) HTML :: nat where "HTML \<equiv> 2"
abbreviation (input) CODE :: nat where "CODE \<equiv> 3"
abbreviation (input) TEXT :: nat where "TEXT \<equiv> 4"
abbreviation (input) INLINE :: nat where "INLINE \<equiv> 5"
abbreviation (input) LINKID :: nat where "LINKID \<equiv> 6"
abbreviation (input) URI :: nat where "URI \<equiv> 7"
abbreviation (input) SABEGIN :: nat where "SABEGIN \<equiv> 8"
abbreviation (input) TITLE :: nat where "TITLE \<equiv> 9"
abbreviation (input) SAEND :: nat where "SAEND \<equiv> 10"
abbreviation (input) IMGBEGIN :: nat where "IMGBEGIN \<equiv> 11"
abbreviation (input) ALT :: nat where "ALT \<equiv> 12"
abbreviation (input) IMGEND :: nat where "IMGEND \<equiv> 13"
abbreviation (input) BREAK :: nat where "BREAK \<equiv> 14"
abbreviation (input) SCODE :: nat where "SCODE \<equiv> 15"
abbreviation (input) ECODE :: nat where "ECODE \<equiv> 16"
abbreviation (input) EA :: nat where "EA \<equiv> 17"
abbreviation (input) SEM :: nat where "SEM \<equiv> 18"
abbreviation (input) EEM :: nat where "EEM \<equiv> 19"
abbreviation (input) SSTRONG :: nat where "SSTRONG \<equiv> 20"
abbreviation (input) ESTRONG :: nat where "ESTRONG \<equiv> 21"
abbreviation (input) HRULE :: nat where "HRULE \<equiv> 22"
abbreviation (input) SPRE :: nat where "SPRE \<equiv> 23"
abbreviation (input) EPRE :: nat where "EPRE \<equiv> 24"
abbreviation (input) SHEADING1 :: nat where "SHEADING1 \<equiv> 25"
abbreviation (input) EHEADING1 :: nat where "EHEADING1 \<equiv> 26"
abbreviation (input) SHEADING2 :: nat where "SHEADING2 \<equiv> 27"
abbreviation (input) EHEADING2 :: nat where "EHEADING2 \<equiv> 28"
abbreviation (input) SHEADING3 :: nat where "SHEADING3 \<equiv> 29"
abbreviation (input) EHEADING3 :: nat where "EHEADING3 \<equiv> 30"
abbreviation (input) SHEADING4 :: nat where "SHEADING4 \<equiv> 31"
abbreviation (input) EHEADING4 :: nat where "EHEADING4 \<equiv> 32"
abbreviation (input) SHEADING5 :: nat where "SHEADING5 \<equiv> 33"
abbreviation (input) EHEADING5 :: nat where "EHEADING5 \<equiv> 34"
abbreviation (input) SHEADING6 :: nat where "SHEADING6 \<equiv> 35"
abbreviation (input) EHEADING6 :: nat where "EHEADING6 \<equiv> 36"
abbreviation (input) SBLOCKQUOTE :: nat where "SBLOCKQUOTE \<equiv> 37"
abbreviation (input) EBLOCKQUOTE :: nat where "EBLOCKQUOTE \<equiv> 38"
abbreviation (input) SULIST :: nat where "SULIST \<equiv> 39"
abbreviation (input) EULIST :: nat where "EULIST \<equiv> 40"
abbreviation (input) SOLIST :: nat where "SOLIST \<equiv> 41"
abbreviation (input) EOLIST :: nat where "EOLIST \<equiv> 42"
abbreviation (input) SLITEM :: nat where "SLITEM \<equiv> 43"
abbreviation (input) ELITEM :: nat where "ELITEM \<equiv> 44"
abbreviation (input) SPARAGRAPH :: nat where "SPARAGRAPH \<equiv> 45"
abbreviation (input) EPARAGRAPH :: nat where "EPARAGRAPH \<equiv> 46"

definition kindname :: "nat \<Rightarrow> wstring" where
  "kindname k = wstr ([
     ''BLANK'', ''LINE'', ''HTML'', ''CODE'', ''TEXT'', ''INLINE'', ''LINKID'', ''URI'',
     ''<a href=\"'', ''\" title=\"'', ''\">'',
     ''<img src=\"'', ''\" alt=\"'', ''\" />'',
     ''<br />\<newline>'', ''<code>'', ''</code>'', ''</a>'',
     ''<em>'', ''</em>'', ''<strong>'', ''</strong>'',
     ''<hr />\<newline>'',
     ''<pre><code>'', ''</code></pre>\<newline>'',
     ''<h1>'', ''</h1>\<newline>'', ''<h2>'', ''</h2>\<newline>'', ''<h3>'', ''</h3>\<newline>'',
     ''<h4>'', ''</h4>\<newline>'', ''<h5>'', ''</h5>\<newline>'', ''<h6>'', ''</h6>\<newline>'',
     ''<blockquote>\<newline>'', ''</blockquote>\<newline>'',
     ''<ul>\<newline>'', ''</ul>\<newline>'', ''<ol>\<newline>'', ''</ol>\<newline>'',
     ''<li>'', ''</li>\<newline>'', ''<p>'', ''</p>\<newline>''] ! k)"


section \<open>Tokens, reference links and nest frames\<close>

text \<open>
  A token is a kind and two iterators. The iterators of a token point into the buffer
  being parsed, except those of the \<open>URI\<close> and \<open>TITLE\<close> tokens of a resolved reference link,
  which point into the strings owned by the dictionary entry: \<open>base\<close> is \<open>None\<close> for the
  first, and the owning string for the second.
\<close>

record token_type =
  kind :: nat
  cbegin :: nat
  cend :: nat
  base :: "wstring option"

definition tok :: "nat \<Rightarrow> nat \<Rightarrow> nat \<Rightarrow> token_type" where
  "tok k b e = \<lparr>kind = k, cbegin = b, cend = e, base = None\<rparr>"

record reflink_type =
  rf_id :: wstring
  rf_uri :: wstring
  rf_title :: wstring

record nest_type =
  nest_pos :: nat
  nest_n :: int

type_synonym refdict_type = "wstring \<rightharpoonup> reflink_type"

section \<open>Character classes\<close>

definition ismdescapable :: "wchar \<Rightarrow> bool" where
  "ismdescapable c \<longleftrightarrow> c \<in> set [C_backslash, C_backtick, C_star, C_underscore, C_lbrace,
     C_rbrace, C_lbracket, C_rbracket, C_lparen, C_rparen, C_lt, C_gt, C_hash, C_plus,
     C_minus, C_dot, C_bang]"

definition ismdwhite :: "wchar \<Rightarrow> bool" where
  "ismdwhite c \<longleftrightarrow> C_LF = c \<or> C_HT = c \<or> C_SP = c"

definition ismdspace :: "wchar \<Rightarrow> bool" where
  "ismdspace c \<longleftrightarrow> C_HT = c \<or> C_SP = c"

definition ismdgraph :: "wchar \<Rightarrow> bool" where
  "ismdgraph c \<longleftrightarrow> C_SP < c \<and> C_DEL \<noteq> c"

definition ismdprint :: "wchar \<Rightarrow> bool" where
  "ismdprint c \<longleftrightarrow> C_HT = c \<or> (C_SP \<le> c \<and> C_DEL \<noteq> c)"

definition ismdany :: "wchar \<Rightarrow> bool" where
  "ismdany c \<longleftrightarrow> C_LF = c \<or> C_HT = c \<or> (C_SP \<le> c \<and> C_DEL \<noteq> c)"

definition ismddigit :: "wchar \<Rightarrow> bool" where
  "ismddigit c \<longleftrightarrow> C_0 \<le> c \<and> c \<le> C_9"

definition ismdxdigit :: "wchar \<Rightarrow> bool" where
  "ismdxdigit c \<longleftrightarrow> (C_A \<le> c \<and> c \<le> C_F) \<or> (C_a \<le> c \<and> c \<le> C_f) \<or> ismddigit c"

definition ismdalnum :: "wchar \<Rightarrow> bool" where
  "ismdalnum c \<longleftrightarrow> (C_A \<le> c \<and> c \<le> C_Z) \<or> (C_a \<le> c \<and> c \<le> C_z) \<or> ismddigit c"

definition ishtname :: "wchar \<Rightarrow> bool" where
  "ishtname c \<longleftrightarrow> ismdalnum c \<or> C_minus = c \<or> C_underscore = c \<or> C_colon = c"

definition ishtattr :: "wchar \<Rightarrow> bool" where
  "ishtattr c \<longleftrightarrow> C_SP < c \<and> C_lt \<noteq> c \<and> C_gt \<noteq> c \<and> C_dquote \<noteq> c \<and> C_squote \<noteq> c
     \<and> C_backtick \<noteq> c"

section \<open>Scanners\<close>

text \<open>
  \<open>scan_of\<close> scans \<open>c{n1,n2}\<close> from \<open>pos\<close> to \<open>eos\<close>; a negative \<open>n2\<close> is no upper bound.
  The loop variables are \<open>i\<close> and \<open>p\<close>. The source has two overloads with the same body,
  one testing a character and one a predicate; the first is \<open>scan_of_ch\<close>.
\<close>

function scan_of_loop ::
  "wstring \<Rightarrow> nat \<Rightarrow> nat \<Rightarrow> int \<Rightarrow> int \<Rightarrow> (wchar \<Rightarrow> bool) \<Rightarrow> int \<Rightarrow> nat \<Rightarrow> nat" where
  "scan_of_loop buf pos eos n1 n2 predicate i p =
     (if n2 < 0 \<or> i < n2 then
        (if p < eos \<and> predicate (buf ! p) then
           scan_of_loop buf pos eos n1 n2 predicate (i + 1) (p + 1)
         else if i < n1 then pos
         else p)
      else p)"
  by pat_completeness auto
termination
  by (relation "measure (\<lambda>(buf, pos, eos, n1, n2, predicate, i, p). eos - p)") auto

declare scan_of_loop.simps [simp del]

definition scan_of ::
  "wstring \<Rightarrow> nat \<Rightarrow> nat \<Rightarrow> int \<Rightarrow> int \<Rightarrow> (wchar \<Rightarrow> bool) \<Rightarrow> nat" where
  "scan_of buf pos eos n1 n2 predicate = scan_of_loop buf pos eos n1 n2 predicate 0 pos"

definition scan_of_ch :: "wstring \<Rightarrow> nat \<Rightarrow> nat \<Rightarrow> int \<Rightarrow> int \<Rightarrow> wchar \<Rightarrow> nat" where
  "scan_of_ch buf pos eos n1 n2 c = scan_of_loop buf pos eos n1 n2 (\<lambda>x. c = x) 0 pos"

lemma scan_of_loop_bounds:
  "scan_of_loop buf pos eos n1 n2 predicate i p = pos
     \<or> (p \<le> scan_of_loop buf pos eos n1 n2 predicate i p
        \<and> scan_of_loop buf pos eos n1 n2 predicate i p \<le> max p eos)"
proof (induction buf pos eos n1 n2 predicate i p rule: scan_of_loop.induct)
  case (1 buf pos eos n1 n2 predicate i p)
  show ?case
  proof (cases "(n2 < 0 \<or> i < n2) \<and> p < eos \<and> predicate (buf ! p)")
    case True
    with 1 show ?thesis
      by (subst (1 2 3) scan_of_loop.simps) auto
  next
    case False
    then show ?thesis
      by (subst (1 2 3) scan_of_loop.simps) auto
  qed
qed

lemma scan_of_ge: "pos \<le> scan_of buf pos eos n1 n2 predicate"
  using scan_of_loop_bounds [of buf pos eos n1 n2 predicate 0 pos]
  by (auto simp: scan_of_def)

lemma scan_of_le: "scan_of buf pos eos n1 n2 predicate \<noteq> pos
    \<Longrightarrow> scan_of buf pos eos n1 n2 predicate \<le> eos"
  using scan_of_loop_bounds [of buf pos eos n1 n2 predicate 0 pos]
  by (auto simp: scan_of_def)

lemma scan_of_ch_ge: "pos \<le> scan_of_ch buf pos eos n1 n2 c"
  using scan_of_loop_bounds [of buf pos eos n1 n2 "\<lambda>x. c = x" 0 pos]
  by (auto simp: scan_of_ch_def)

lemma scan_of_ch_le: "scan_of_ch buf pos eos n1 n2 c \<noteq> pos
    \<Longrightarrow> scan_of_ch buf pos eos n1 n2 c \<le> eos"
  using scan_of_loop_bounds [of buf pos eos n1 n2 "\<lambda>x. c = x" 0 pos]
  by (auto simp: scan_of_ch_def)

text \<open>The reverse scan: \<^verbatim>\<open>bos <= p - 1\<close> on iterators is \<open>bos < p\<close> on offsets.\<close>

function rscan_of :: "wstring \<Rightarrow> nat \<Rightarrow> nat \<Rightarrow> (wchar \<Rightarrow> bool) \<Rightarrow> nat" where
  "rscan_of buf bos p predicate =
     (if bos < p \<and> predicate (buf ! (p - 1)) then rscan_of buf bos (p - 1) predicate else p)"
  by pat_completeness auto
termination
  by (relation "measure (\<lambda>(buf, bos, p, predicate). p)") auto

declare rscan_of.simps [simp del]

definition rscan_of_ch :: "wstring \<Rightarrow> nat \<Rightarrow> nat \<Rightarrow> wchar \<Rightarrow> nat" where
  "rscan_of_ch buf bos p c = rscan_of buf bos p (\<lambda>x. c = x)"

text \<open>
  \<open>scan_quoted\<close> scans a quoted string \<^verbatim>\<open>"abc"\<close>, \<^verbatim>\<open>[abc]\<close> or \<^verbatim>\<open>(abc)\<close>, nested and
  escaped. Its loop has the variables \<open>p\<close> and \<open>level\<close>; inside parentheses it calls itself on
  a \<^verbatim>\<open><\<close> and continues from the character before the result, so it need not return:
  the result is an option, and \<open>None\<close> is a loop that runs forever.
\<close>

type_synonym quote_type = "wchar \<times> wchar \<times> wchar \<times> (wchar \<Rightarrow> bool)"

partial_function (option) scan_quoted_loop ::
  "wstring \<Rightarrow> nat \<times> nat \<Rightarrow> quote_type \<Rightarrow> nat \<times> int \<Rightarrow> nat option" where
  "scan_quoted_loop buf rng quote st =
     (case rng of (pos, eos) \<Rightarrow>
      case quote of (lquote, rquote, escape, predicate) \<Rightarrow>
      case st of (p, level) \<Rightarrow>
      if level > 0 then
        (if \<not> (p < eos \<and> predicate (buf ! p)) then Some pos
         else if escape = buf ! p \<and> p + 1 < eos
             \<and> (escape = buf ! (p + 1) \<or> rquote = buf ! (p + 1) \<or> lquote = buf ! (p + 1)) then
           scan_quoted_loop buf rng quote (p + 1 + 1, level)
         else if lquote = C_lparen \<and> C_lt = buf ! p then
           do {
             r \<leftarrow> (if \<not> (p < eos \<and> C_lt = buf ! p) then Some p
                  else scan_quoted_loop buf (p, eos) (C_lt, C_gt, escape, predicate) (p + 1, 1));
             scan_quoted_loop buf rng quote (r - 1 + 1, level)
           }
         else if rquote = buf ! p then
           scan_quoted_loop buf rng quote (p + 1, level - 1)
         else if lquote = buf ! p then
           scan_quoted_loop buf rng quote (p + 1, level + 1)
         else
           scan_quoted_loop buf rng quote (p + 1, level))
      else Some p)"

declare scan_quoted_loop.simps [code]

definition scan_quoted ::
  "wstring \<Rightarrow> nat \<Rightarrow> nat \<Rightarrow> wchar \<Rightarrow> wchar \<Rightarrow> wchar \<Rightarrow> (wchar \<Rightarrow> bool) \<Rightarrow> nat option" where
  "scan_quoted buf pos eos lquote rquote escape predicate =
     (if \<not> (pos < eos \<and> lquote = buf ! pos) then Some pos
      else scan_quoted_loop buf (pos, eos) (lquote, rquote, escape, predicate) (pos + 1, 1))"

lemma scan_quoted_loop_ge:
  assumes "scan_quoted_loop buf rng quote st = Some r" and "fst rng < fst st"
  shows "fst rng \<le> r"
proof -
  have "fst rng < fst st \<longrightarrow> fst rng \<le> r"
  proof (rule scan_quoted_loop.raw_induct
      [where P = "\<lambda>buf rng quote st r. fst rng < fst st \<longrightarrow> fst rng \<le> r", OF _ assms(1)],
      goal_cases)
    case (1 scan buf rng quote st r)
    obtain pos eos where rng: "rng = (pos, eos)" by fastforce
    obtain lquote rquote escape predicate where
      quote: "quote = (lquote, rquote, escape, predicate)"
      by (metis prod_cases4)
    obtain p level where st: "st = (p, level)" by fastforce
    note IH = 1(1)
    show ?case
    proof
      assume "fst rng < fst st"
      then have lt: "pos < p" by (simp add: rng st)
      from 1(2) show "fst rng \<le> r"
        unfolding rng quote st
        using lt
        apply (simp split: if_splits bind_splits)
        subgoal using IH [of buf "(pos, eos)" quote "(p + 2, level)" r] quote by simp
        subgoal for r'
          using IH [of buf "(p, eos)" "(C_lt, C_gt, escape, predicate)" "(p + 1, 1)" r']
            IH [of buf "(pos, eos)" quote "(r' - 1 + 1, level)" r] quote by simp
        subgoal using IH [of buf "(pos, eos)" quote "(p + 1, level - 1)" r] quote by simp
        subgoal using IH [of buf "(pos, eos)" quote "(p + 1, level + 1)" r] quote by simp
        subgoal using IH [of buf "(pos, eos)" quote "(p + 1, level)" r] quote by simp
        done
    qed
  qed
  with assms(2) show ?thesis by simp
qed

lemma scan_quoted_ge:
  "scan_quoted buf pos eos lquote rquote escape predicate = Some r \<Longrightarrow> pos \<le> r"
  using scan_quoted_loop_ge [of buf "(pos, eos)" "(lquote, rquote, escape, predicate)"
      "(pos + 1, 1)" r]
  by (auto simp: scan_quoted_def split: if_splits)

text \<open>The standard algorithms the source calls on iterator ranges.\<close>

function search :: "wstring \<Rightarrow> nat \<Rightarrow> nat \<Rightarrow> wstring \<Rightarrow> nat" where
  "search buf p eos pat =
     (if p + length pat \<le> eos then
        (if slice buf p (p + length pat) = pat then p else search buf (p + 1) eos pat)
      else eos)"
  by pat_completeness auto
termination
proof (relation "measure (\<lambda>(buf, p, eos, pat). eos - p)", goal_cases)
  case (2 buf p eos pat)
  then have "pat \<noteq> []"
    by (auto simp: slice_def)
  with 2 show ?case
    by (cases pat) auto
qed auto

declare search.simps [simp del]

function find_first_of :: "wstring \<Rightarrow> nat \<Rightarrow> nat \<Rightarrow> wstring \<Rightarrow> nat" where
  "find_first_of buf p eos ccls =
     (if p < eos then (if buf ! p \<in> set ccls then p else find_first_of buf (p + 1) eos ccls)
      else eos)"
  by pat_completeness auto
termination
  by (relation "measure (\<lambda>(buf, p, eos, ccls). eos - p)") auto

declare find_first_of.simps [simp del]

definition find_ch :: "wstring \<Rightarrow> nat \<Rightarrow> nat \<Rightarrow> wchar \<Rightarrow> nat" where
  "find_ch buf p eos c = find_first_of buf p eos [c]"

section \<open>Link identifiers and backslash escapes\<close>

function decode_linkid_white :: "wstring \<Rightarrow> nat \<Rightarrow> nat \<Rightarrow> nat" where
  "decode_linkid_white buf s eos =
     (if s < eos \<and> ismdwhite (buf ! s) then decode_linkid_white buf (s + 1) eos else s)"
  by pat_completeness auto
termination
  by (relation "measure (\<lambda>(buf, s, eos). eos - s)") auto

declare decode_linkid_white.simps [simp del]

lemma decode_linkid_white_ge: "s \<le> decode_linkid_white buf s eos"
  by (induction buf s eos rule: decode_linkid_white.induct)
     (subst decode_linkid_white.simps, auto)

lemma decode_linkid_white_gt:
  "s < eos \<Longrightarrow> ismdwhite (buf ! s) \<Longrightarrow> s < decode_linkid_white buf s eos"
  using decode_linkid_white_ge [of "s + 1" buf eos]
  by (subst decode_linkid_white.simps) auto

function decode_linkid :: "wstring \<Rightarrow> nat \<Rightarrow> nat \<Rightarrow> wstring \<Rightarrow> wstring" where
  "decode_linkid buf s eos ident =
     (if s < eos then
        (if C_A \<le> buf ! s \<and> buf ! s \<le> C_Z then
           decode_linkid buf (s + 1) eos (ident @ [buf ! s + (C_a - C_A)])
         else if C_backslash = buf ! s \<and> s + 1 < eos \<and> ismdescapable (buf ! (s + 1)) then
           decode_linkid buf (s + 1 + 1) eos (ident @ [buf ! (s + 1)])
         else if ismdwhite (buf ! s) then
           decode_linkid buf (decode_linkid_white buf s eos - 1 + 1) eos (ident @ [C_SP])
         else
           decode_linkid buf (s + 1) eos (ident @ [buf ! s]))
      else ident)"
  by pat_completeness auto
termination
proof (relation "measure (\<lambda>(buf, s, eos, ident). eos - s)", goal_cases)
  case (4 buf s eos ident)
  then show ?case
    using decode_linkid_white_gt [of s eos buf] by auto
qed auto

declare decode_linkid.simps [simp del]

function unescape_backslash :: "wstring \<Rightarrow> nat \<Rightarrow> nat \<Rightarrow> wstring \<Rightarrow> wstring" where
  "unescape_backslash buf s eos str =
     (if s < eos then
        (if C_backslash = buf ! s \<and> s + 1 < eos \<and> ismdescapable (buf ! (s + 1)) then
           unescape_backslash buf (s + 1 + 1) eos (str @ [buf ! (s + 1)])
         else
           unescape_backslash buf (s + 1) eos (str @ [buf ! s]))
      else str)"
  by pat_completeness auto
termination
  by (relation "measure (\<lambda>(buf, s, eos, str). eos - s)") auto

declare unescape_backslash.simps [simp del]


section \<open>The block parser\<close>

text \<open>
  A \<^verbatim>\<open>line_iterator\<close> is an index into the token sequence \<open>input\<close>, and \<open>dol\<close> is its
  length. Several functions read a field of \<^verbatim>\<open>*line1\<close> after a loop that may have stopped
  at \<open>dol\<close>; what such a read past the end returns is not fixed by the program, and is the
  parameter \<open>pte\<close> of the model.
\<close>

definition tok_at :: "token_type \<Rightarrow> token_type list \<Rightarrow> nat \<Rightarrow> token_type" where
  "tok_at pte input i = (if i < length input then input ! i else pte)"

text \<open>Four columns tab, and not a tab.\<close>

definition scan_tab :: "wstring \<Rightarrow> nat \<Rightarrow> nat \<Rightarrow> nat" where
  "scan_tab buf pos eos =
     (let p1 = scan_of_ch buf pos eos 0 3 C_SP;
          p2 = scan_of_ch buf p1 eos 1 1 C_SP;
          p3 = scan_of_ch buf p1 eos 1 1 C_HT
      in if int p2 - int pos = 4 then p2 else if p1 < p3 then p3 else pos)"

definition scan_tab_not :: "wstring \<Rightarrow> nat \<Rightarrow> nat \<Rightarrow> nat" where
  "scan_tab_not buf pos eos = scan_of_ch buf pos eos 0 3 C_SP"

function scan_hrule_loop :: "wstring \<Rightarrow> nat \<Rightarrow> wchar \<Rightarrow> nat \<Rightarrow> int \<Rightarrow> nat \<times> int" where
  "scan_hrule_loop buf eos dash p1 k =
     (if p1 < eos \<and> (ismdspace (buf ! p1) \<or> dash = buf ! p1) then
        scan_hrule_loop buf eos dash (p1 + 1) (if dash = buf ! p1 then k + 1 else k)
      else (p1, k))"
  by pat_completeness auto
termination
  by (relation "measure (\<lambda>(buf, eos, dash, p1, k). eos - p1)") auto

declare scan_hrule_loop.simps [simp del]

definition scan_hrule :: "wstring \<Rightarrow> nat \<Rightarrow> nat \<Rightarrow> nat" where
  "scan_hrule buf pos eos =
     (let p1 = scan_tab_not buf pos eos in
      if \<not> (p1 < eos \<and> (C_star = buf ! p1 \<or> C_underscore = buf ! p1 \<or> C_minus = buf ! p1))
      then pos
      else
        let dash = buf ! p1;
            (p1, k) = scan_hrule_loop buf eos dash p1 0
        in if k < 3 \<or> \<not> (p1 \<ge> eos \<or> C_LF = buf ! p1) then pos else p1)"

definition scan_listmark :: "wstring \<Rightarrow> nat \<Rightarrow> nat \<Rightarrow> nat" where
  "scan_listmark buf pos eos =
     (let p1 = scan_tab_not buf pos eos in
      if p1 \<ge> eos then pos
      else if C_star = buf ! p1 \<or> C_plus = buf ! p1 \<or> C_minus = buf ! p1 then
        (let p2 = p1 + 1;
             p3 = scan_of buf p2 eos 1 1 ismdspace
         in if p2 < p3 then p2 else pos)
      else if ismddigit (buf ! p1) then
        (let p2 = scan_of buf p1 eos 1 (- 1) ismddigit;
             p3 = scan_of_ch buf p2 eos 1 1 C_dot;
             p4 = scan_of buf p3 eos 1 1 ismdspace
         in if p2 < p3 \<and> p3 < p4 then p3 else pos)
      else pos)"

function parse_blank :: "token_type list \<Rightarrow> nat \<Rightarrow> nat" where
  "parse_blank input line1 =
     (if line1 < length input \<and> BLANK = kind (input ! line1) then parse_blank input (line1 + 1)
      else line1)"
  by pat_completeness auto
termination
  by (relation "measure (\<lambda>(input, line1). length input - line1)") auto

declare parse_blank.simps [simp del]

definition parse_hrule ::
  "wstring \<Rightarrow> token_type list \<Rightarrow> nat \<Rightarrow> token_type list \<Rightarrow> nat \<times> token_type list" where
  "parse_hrule buf input dot output =
     (let p1 = scan_hrule buf (cbegin (input ! dot)) (cend (input ! dot)) in
      if p1 = cbegin (input ! dot) then (dot, output)
      else (dot + 1, output @ [tok HRULE (cbegin (input ! dot)) (cend (input ! dot))]))"

definition parse_seheading ::
  "wstring \<Rightarrow> token_type list \<Rightarrow> nat \<Rightarrow> token_type list \<Rightarrow> nat \<times> token_type list" where
  "parse_seheading buf input dot output =
     (let line2 = dot + 1 in
      if line2 = length input then (dot, output)
      else
        let p1 = scan_tab_not buf (cbegin (input ! dot)) (cend (input ! dot)) in
        if \<not> (p1 < cend (input ! dot) \<and> ismdgraph (buf ! p1)) then (dot, output)
        else
          let p2 = scan_tab_not buf (cbegin (input ! line2)) (cend (input ! line2)) in
          if \<not> (p2 < cend (input ! line2) \<and> (C_equals = buf ! p2 \<or> C_minus = buf ! p2))
          then (dot, output)
          else
            let dash = buf ! p2;
                p3 = scan_of_ch buf p2 (cend (input ! line2)) 0 (- 1) dash;
                p4 = scan_of buf p3 (cend (input ! line2)) 0 (- 1) ismdspace
            in
            if \<not> (p4 \<ge> cend (input ! line2) \<or> C_LF = buf ! p4) then (dot, output)
            else
              let stag = (if C_equals = dash then SHEADING1 else SHEADING2);
                  etag = (if C_equals = dash then EHEADING1 else EHEADING2)
              in (line2 + 1,
                  output @ [tok stag p1 p1, tok INLINE p1 (cend (input ! dot)),
                            tok etag (cend (input ! dot)) (cend (input ! dot))]))"

definition stag_atx :: "nat list" where
  "stag_atx = [SHEADING1, SHEADING2, SHEADING3, SHEADING4, SHEADING5, SHEADING6]"

definition etag_atx :: "nat list" where
  "etag_atx = [EHEADING1, EHEADING2, EHEADING3, EHEADING4, EHEADING5, EHEADING6]"

definition parse_atxheading ::
  "wstring \<Rightarrow> token_type list \<Rightarrow> nat \<Rightarrow> token_type list \<Rightarrow> nat \<times> token_type list" where
  "parse_atxheading buf input dot output =
     (let p1 = scan_tab_not buf (cbegin (input ! dot)) (cend (input ! dot));
          p2 = scan_of_ch buf p1 (cend (input ! dot)) 1 (- 1) C_hash
      in
      if p2 = p1 then (dot, output)
      else
        let k = (if int p2 - int p1 > 6 then 6 else p2 - p1);
            p3 = scan_of buf p2 (cend (input ! dot)) 0 (- 1) ismdspace;
            p4 = cend (input ! dot);
            p4 = rscan_of buf p3 p4 ismdwhite;
            p4 = rscan_of_ch buf p3 p4 C_hash;
            p4 = rscan_of buf p3 p4 ismdspace
        in
        if p3 = p4 then (dot, output)
        else (dot + 1,
              output @ [tok (stag_atx ! (k - 1)) p3 p3, tok INLINE p3 p4,
                        tok (etag_atx ! (k - 1)) p4 p4]))"

function parse_listitem_loop ::
  "wstring \<Rightarrow> token_type list \<Rightarrow> nat \<Rightarrow> token_type list \<Rightarrow> nat \<times> token_type list" where
  "parse_listitem_loop buf input line1 output =
     (if line1 < length input \<and> LINE = kind (input ! line1) then
        (let p2 = scan_listmark buf (cbegin (input ! line1)) (cend (input ! line1)) in
         if p2 \<noteq> cbegin (input ! line1) then (line1, output)
         else parse_listitem_loop buf input (line1 + 1)
                (output @ [tok INLINE (cbegin (input ! line1)) (cend (input ! line1))]))
      else (line1, output))"
  by pat_completeness auto
termination
  by (relation "measure (\<lambda>(buf, input, line1, output). length input - line1)") auto

declare parse_listitem_loop.simps [simp del]

definition parse_listitem ::
  "wstring \<Rightarrow> token_type list \<Rightarrow> nat \<Rightarrow> token_type list \<Rightarrow> nat \<times> token_type list" where
  "parse_listitem buf input dot output =
     (let p1 = scan_tab_not buf (cbegin (input ! dot)) (cend (input ! dot)) in
      if \<not> (p1 < cend (input ! dot) \<and> ismdgraph (buf ! p1)) then (dot, output)
      else parse_listitem_loop buf input (dot + 1)
             (output @ [tok INLINE p1 (cend (input ! dot))]))"

function parse_paragraph_loop ::
  "token_type list \<Rightarrow> nat \<Rightarrow> token_type list \<Rightarrow> nat \<times> token_type list" where
  "parse_paragraph_loop input line1 output =
     (if line1 < length input \<and> LINE = kind (input ! line1) then
        parse_paragraph_loop input (line1 + 1)
          (output @ [tok INLINE (cbegin (input ! line1)) (cend (input ! line1))])
      else (line1, output))"
  by pat_completeness auto
termination
  by (relation "measure (\<lambda>(input, line1, output). length input - line1)") auto

declare parse_paragraph_loop.simps [simp del]

definition parse_paragraph ::
  "wstring \<Rightarrow> token_type \<Rightarrow> token_type list \<Rightarrow> nat \<Rightarrow> token_type list
     \<Rightarrow> nat \<times> token_type list" where
  "parse_paragraph buf pte input dot output =
     (let p1 = scan_tab_not buf (cbegin (input ! dot)) (cend (input ! dot)) in
      if \<not> (p1 < cend (input ! dot) \<and> ismdgraph (buf ! p1)) then (dot, output)
      else
        let (line1, output) = parse_paragraph_loop input (dot + 1)
               (output @ [tok SPARAGRAPH p1 p1, tok INLINE p1 (cend (input ! dot))])
        in (line1, output @ [tok EPARAGRAPH (cbegin (tok_at pte input line1))
                                            (cbegin (tok_at pte input line1))]))"


text \<open>Copying the tokens \<^verbatim>\<open>[dot, line2)\<close> of the input, one \<^verbatim>\<open>push_back\<close> each.\<close>

definition lines_of :: "token_type list \<Rightarrow> nat \<Rightarrow> nat \<Rightarrow> token_type list" where
  "lines_of input dot line2 = take (line2 - dot) (drop dot input)"

definition parse_tabcode_line ::
  "wstring \<Rightarrow> token_type list \<Rightarrow> nat \<Rightarrow> token_type list \<Rightarrow> nat \<times> token_type list" where
  "parse_tabcode_line buf input dot output =
     (let p = scan_tab buf (cbegin (input ! dot)) (cend (input ! dot)) in
      if p = cbegin (input ! dot) then (dot, output)
      else (dot + 1, output @ [tok CODE p (cend (input ! dot))]))"

definition parse_tabcode_blank ::
  "wstring \<Rightarrow> token_type list \<Rightarrow> nat \<Rightarrow> token_type list \<Rightarrow> nat \<times> token_type list" where
  "parse_tabcode_blank buf input dot output =
     (let line2 = parse_blank input dot in
      if \<not> (line2 \<noteq> length input \<and> LINE = kind (input ! line2)) then (dot, output)
      else
        let p2 = scan_tab buf (cbegin (input ! line2)) (cend (input ! line2)) in
        if p2 = cbegin (input ! line2) then (dot, output)
        else (line2, output @ map (\<lambda>t. tok CODE (cbegin t) (cend t)) (lines_of input dot line2)))"

lemma parse_blank_ge: "line1 \<le> parse_blank input line1"
  by (induction input line1 rule: parse_blank.induct) (subst parse_blank.simps, auto)

lemma parse_blank_le: "line1 \<le> length input \<Longrightarrow> parse_blank input line1 \<le> length input"
  by (induction input line1 rule: parse_blank.induct) (subst parse_blank.simps, auto)

lemma parse_tabcode_line_ge:
  "parse_tabcode_line buf input dot output = (line2, r) \<Longrightarrow> dot \<le> line2"
  by (simp add: parse_tabcode_line_def Let_def split: if_splits)

lemma parse_tabcode_blank_ge:
  "parse_tabcode_blank buf input dot output = (line2, r) \<Longrightarrow> dot \<le> line2"
  using parse_blank_ge [of dot input]
  by (simp add: parse_tabcode_blank_def Let_def split: if_splits)

function parse_tabcode_loop ::
  "wstring \<Rightarrow> token_type list \<Rightarrow> nat \<Rightarrow> token_type list \<Rightarrow> nat \<times> token_type list" where
  "parse_tabcode_loop buf input line1 output =
     (if line1 < length input then
        (let (line2, output) =
           (if LINE = kind (input ! line1) then parse_tabcode_line buf input line1 output
            else if BLANK = kind (input ! line1) then parse_tabcode_blank buf input line1 output
            else (line1, output))
         in if line2 = line1 then (line1, output)
            else parse_tabcode_loop buf input line2 output)
      else (line1, output))"
  by pat_completeness auto
termination
proof (relation "measure (\<lambda>(buf, input, line1, output). length input - line1)", goal_cases)
  case (2 buf input line1 out x line2 out')
  then have "line1 \<le> line2"
    by (auto split: if_splits dest: parse_tabcode_line_ge [OF sym] parse_tabcode_blank_ge [OF sym])
  with 2 show ?case
    by (auto split: if_splits dest!: sym [of "(_, _)"])
qed simp

declare parse_tabcode_loop.simps [simp del]

definition parse_tabcode ::
  "wstring \<Rightarrow> token_type \<Rightarrow> token_type list \<Rightarrow> nat \<Rightarrow> token_type list
     \<Rightarrow> nat \<times> token_type list" where
  "parse_tabcode buf pte input dot output =
     (let p1 = scan_tab buf (cbegin (input ! dot)) (cend (input ! dot)) in
      if p1 = cbegin (input ! dot) then (dot, output)
      else
        let (line1, output) = parse_tabcode_loop buf input (dot + 1)
               (output @ [tok SPRE p1 p1, tok CODE p1 (cend (input ! dot))])
        in (line1, output @ [tok EPRE (cend (tok_at pte input line1))
                                      (cend (tok_at pte input line1))]))"

text \<open>
  The functions that collect the body of a block quote or of a list: \<open>block\<close> is the token
  sequence that \<open>parse_block\<close> is then called on.
\<close>

definition parse_blockquote_line ::
  "wstring \<Rightarrow> token_type list \<Rightarrow> nat \<Rightarrow> token_type list \<Rightarrow> bool
     \<Rightarrow> nat \<times> token_type list \<times> bool" where
  "parse_blockquote_line buf input dot block lazyline =
     (let p1 = scan_tab_not buf (cbegin (input ! dot)) (cend (input ! dot));
          p2 = scan_of_ch buf p1 (cend (input ! dot)) 0 1 C_gt;
          p3 = scan_of_ch buf p2 (cend (input ! dot)) 0 1 C_SP;
          p4 = scan_of buf p3 (cend (input ! dot)) 0 (- 1) ismdspace;
          block =
            (if p4 \<ge> cend (input ! dot) \<or> C_LF = buf ! p4 then
               block @ [tok BLANK p4 (cend (input ! dot))]
             else
               (if lazyline \<and> p1 \<noteq> p2 then block @ [tok BLANK p3 p3] else block)
                 @ [tok LINE p3 (cend (input ! dot))])
      in (dot + 1, block, p1 = p2))"

definition parse_blockquote_blank ::
  "wstring \<Rightarrow> token_type list \<Rightarrow> nat \<Rightarrow> token_type list \<Rightarrow> bool
     \<Rightarrow> nat \<times> token_type list \<times> bool" where
  "parse_blockquote_blank buf input dot block lazyline =
     (let line2 = parse_blank input dot in
      if \<not> (line2 \<noteq> length input \<and> LINE = kind (input ! line2)) then (dot, block, lazyline)
      else
        let p1 = scan_tab_not buf (cbegin (input ! line2)) (cend (input ! line2));
            p2 = scan_of_ch buf p1 (cend (input ! line2)) 1 1 C_gt
        in if p1 = p2 then (dot, block, lazyline)
           else (line2, block @ lines_of input dot line2, False))"

lemma parse_blockquote_line_ge:
  "parse_blockquote_line buf input dot block lazyline = (line2, r) \<Longrightarrow> dot \<le> line2"
  by (simp add: parse_blockquote_line_def Let_def split: if_splits)

lemma parse_blockquote_blank_ge:
  "parse_blockquote_blank buf input dot block lazyline = (line2, r) \<Longrightarrow> dot \<le> line2"
  using parse_blank_ge [of dot input]
  by (simp add: parse_blockquote_blank_def Let_def split: if_splits)

function parse_blockquote_loop ::
  "wstring \<Rightarrow> token_type list \<Rightarrow> nat \<Rightarrow> token_type list \<Rightarrow> bool \<Rightarrow> nat \<times> token_type list"
  where
  "parse_blockquote_loop buf input line1 block lazyline =
     (if line1 < length input then
        (let (line2, block, lazyline) =
           (if LINE = kind (input ! line1) then
              parse_blockquote_line buf input line1 block lazyline
            else if BLANK = kind (input ! line1) then
              parse_blockquote_blank buf input line1 block lazyline
            else (line1, block, lazyline))
         in if line2 = line1 then (line1, block)
            else parse_blockquote_loop buf input line2 block lazyline)
      else (line1, block))"
  by pat_completeness auto
termination
proof (relation "measure (\<lambda>(buf, input, line1, block, lazyline). length input - line1)",
    goal_cases)
  case (2 buf input line1 block lazyline x line2 y block' lazyline')
  then have "line1 \<le> line2"
    by (auto split: if_splits dest: parse_blockquote_line_ge [OF sym] parse_blockquote_blank_ge [OF sym])
  with 2 show ?case
    by (auto split: if_splits dest!: sym [of "(_, _)"])
qed simp

declare parse_blockquote_loop.simps [simp del]

text \<open>
  \<open>parse_blockquote\<close> up to its call of \<open>parse_block\<close>: \<open>None\<close> when the line is no block
  quote, else the iterator it returns and the collected block.
\<close>

definition parse_blockquote_block ::
  "wstring \<Rightarrow> token_type \<Rightarrow> token_type list \<Rightarrow> nat \<Rightarrow> (nat \<times> token_type list) option" where
  "parse_blockquote_block buf pte input dot =
     (let p1 = scan_tab_not buf (cbegin (input ! dot)) (cend (input ! dot));
          p2 = scan_of_ch buf p1 (cend (input ! dot)) 1 1 C_gt
      in
      if p1 = p2 then None
      else
        let (line1, block) = parse_blockquote_loop buf input dot [tok SBLOCKQUOTE p2 p2] False
        in Some (line1, block @ [tok EBLOCKQUOTE (cend (tok_at pte input line1))
                                                 (cend (tok_at pte input line1))]))"

definition parse_list_line ::
  "wstring \<Rightarrow> token_type list \<Rightarrow> nat \<Rightarrow> token_type list \<Rightarrow> wchar \<Rightarrow> nat \<times> token_type list"
  where
  "parse_list_line buf input dot block indicator =
     (let p1 = scan_listmark buf (cbegin (input ! dot)) (cend (input ! dot)) in
      if p1 = cbegin (input ! dot) then
        (let p2 = scan_tab buf (cbegin (input ! dot)) (cend (input ! dot))
         in (dot + 1, block @ [tok LINE p2 (cend (input ! dot))]))
      else
        (let p2 = scan_of buf p1 (cend (input ! dot)) 1 (- 1) ismdspace
         in (dot + 1, block @ [tok ELITEM p2 p2, tok SLITEM p2 p2,
                               tok LINE p2 (cend (input ! dot))])))"

definition parse_list_blank ::
  "wstring \<Rightarrow> token_type list \<Rightarrow> nat \<Rightarrow> token_type list \<Rightarrow> wchar \<Rightarrow> nat \<times> token_type list"
  where
  "parse_list_blank buf input dot block indicator =
     (let line2 = parse_blank input dot in
      if \<not> (line2 \<noteq> length input \<and> LINE = kind (input ! line2)) then (dot, block)
      else
        let p1 = scan_hrule buf (cbegin (input ! line2)) (cend (input ! line2)) in
        if p1 \<noteq> cbegin (input ! line2) then (dot, block)
        else
          let p2 = scan_listmark buf (cbegin (input ! line2)) (cend (input ! line2));
              p3 = scan_tab buf (cbegin (input ! line2)) (cend (input ! line2))
          in
          if p3 \<noteq> cbegin (input ! line2) then (line2, block @ lines_of input dot line2)
          else if p2 = cbegin (input ! line2) then (dot, block)
          else (line2, block))"

lemma parse_list_line_ge:
  "parse_list_line buf input dot block indicator = (line2, r) \<Longrightarrow> dot \<le> line2"
  by (simp add: parse_list_line_def Let_def split: if_splits)

lemma parse_list_blank_ge:
  "parse_list_blank buf input dot block indicator = (line2, r) \<Longrightarrow> dot \<le> line2"
  using parse_blank_ge [of dot input]
  by (simp add: parse_list_blank_def Let_def split: if_splits)

function parse_list_loop ::
  "wstring \<Rightarrow> token_type list \<Rightarrow> nat \<Rightarrow> token_type list \<Rightarrow> wchar \<Rightarrow> nat \<times> token_type list"
  where
  "parse_list_loop buf input line1 block indicator =
     (if line1 < length input then
        (let (line2, block) =
           (if LINE = kind (input ! line1) then parse_list_line buf input line1 block indicator
            else if BLANK = kind (input ! line1) then
              parse_list_blank buf input line1 block indicator
            else (line1, block))
         in if line2 = line1 then (line1, block)
            else parse_list_loop buf input line2 block indicator)
      else (line1, block))"
  by pat_completeness auto
termination
proof (relation "measure (\<lambda>(buf, input, line1, block, indicator). length input - line1)",
    goal_cases)
  case (2 buf input line1 block indicator x line2 block')
  then have "line1 \<le> line2"
    by (auto split: if_splits dest: parse_list_line_ge [OF sym] parse_list_blank_ge [OF sym])
  with 2 show ?case
    by (auto split: if_splits dest!: sym [of "(_, _)"])
qed simp

declare parse_list_loop.simps [simp del]

definition parse_list_block ::
  "wstring \<Rightarrow> token_type \<Rightarrow> token_type list \<Rightarrow> nat \<Rightarrow> (nat \<times> token_type list) option" where
  "parse_list_block buf pte input dot =
     (let p1 = scan_listmark buf (cbegin (input ! dot)) (cend (input ! dot)) in
      if p1 = cbegin (input ! dot) then None
      else
        let indicator = buf ! (p1 - 1);
            stag = (if C_dot = indicator then SOLIST else SULIST);
            etag = (if C_dot = indicator then EOLIST else EULIST);
            p2 = scan_of buf p1 (cend (input ! dot)) 1 (- 1) ismdspace;
            (line1, block) = parse_list_loop buf input (dot + 1)
               [tok stag p2 p2, tok SLITEM p2 p2, tok LINE p2 (cend (input ! dot))] indicator
        in Some (line1, block @ [tok ELITEM (cbegin (tok_at pte input line1))
                                            (cbegin (tok_at pte input line1)),
                                 tok etag (cbegin (tok_at pte input line1))
                                          (cbegin (tok_at pte input line1))]))"


text \<open>
  The measure for the termination of \<open>parse_block\<close>: the characters of the \<open>LINE\<close> tokens
  from \<open>dot\<close> on, then the tokens from \<open>dot\<close> on. A collected block has fewer characters in
  its lines than the lines it was collected from, because its first line lost its marker.
\<close>

definition line_chars :: "token_type list \<Rightarrow> nat" where
  "line_chars ts = sum_list (map (\<lambda>t. if kind t = LINE then cend t - cbegin t else 0) ts)"

lemma line_chars_append [simp]: "line_chars (xs @ ys) = line_chars xs + line_chars ys"
  by (simp add: line_chars_def)

lemma line_chars_Nil [simp]: "line_chars [] = 0"
  by (simp add: line_chars_def)

lemma line_chars_Cons [simp]:
  "line_chars (t # ts) = (if kind t = LINE then cend t - cbegin t else 0) + line_chars ts"
  by (simp add: line_chars_def)

lemma line_chars_tok [simp]:
  "kind (tok k b e) = k" "cbegin (tok k b e) = b" "cend (tok k b e) = e" "base (tok k b e) = None"
  by (simp_all add: tok_def)

lemma line_chars_drop_Suc:
  "dot < length input \<Longrightarrow> line_chars (drop dot input)
     = (if kind (input ! dot) = LINE then cend (input ! dot) - cbegin (input ! dot) else 0)
       + line_chars (drop (dot + 1) input)"
  by (simp flip: Cons_nth_drop_Suc)

lemma line_chars_lines_of:
  "dot \<le> line2 \<Longrightarrow>
     line_chars (lines_of input dot line2) + line_chars (drop line2 input)
       = line_chars (drop dot input)"
proof -
  assume le: "dot \<le> line2"
  have "lines_of input dot line2 @ drop (line2 - dot) (drop dot input) = drop dot input"
    unfolding lines_of_def by (rule append_take_drop_id)
  moreover have "drop (line2 - dot) (drop dot input) = drop line2 input"
    using le by simp
  ultimately show ?thesis
    by (metis line_chars_append)
qed

lemma line_chars_drop_mono:
  "dot \<le> line2 \<Longrightarrow> line_chars (drop line2 input) \<le> line_chars (drop dot input)"
  using line_chars_lines_of [of dot line2 input] by simp

lemma scan_tab_not_ge: "pos \<le> scan_tab_not buf pos eos"
  by (simp add: scan_tab_not_def scan_of_ch_ge)

lemma scan_tab_ge: "pos \<le> scan_tab buf pos eos"
  using scan_of_ch_ge [of pos buf eos 0 3 C_SP]
    scan_of_ch_ge [of "scan_of_ch buf pos eos 0 3 C_SP" buf eos 1 1 C_HT]
  by (auto simp: scan_tab_def Let_def)

lemma scan_listmark_bounds:
  "scan_listmark buf pos eos = pos
    \<or> (pos < scan_listmark buf pos eos \<and> scan_listmark buf pos eos \<le> eos)"
proof -
  let ?p1 = "scan_tab_not buf pos eos"
  let ?p2 = "scan_of buf ?p1 eos 1 (- 1) ismddigit"
  let ?p3 = "scan_of_ch buf ?p2 eos 1 1 C_dot"
  have a: "pos \<le> ?p1" by (rule scan_tab_not_ge)
  have b: "?p1 \<le> ?p2" by (rule scan_of_ge)
  have c: "?p2 \<le> ?p3" by (rule scan_of_ch_ge)
  have d: "?p2 < ?p3 \<Longrightarrow> ?p3 \<le> eos"
    using scan_of_ch_le [of buf ?p2 eos 1 1 C_dot] by auto
  show ?thesis
    using a b c d by (auto simp: scan_listmark_def Let_def)
qed

lemma parse_blockquote_line_chars:
  assumes "parse_blockquote_line buf input l block lz = (line2, block', lz')"
    and "l < length input" and "kind (input ! l) = LINE"
  shows "line2 = l + 1 \<and> line_chars block' + line_chars (drop line2 input)
           \<le> line_chars block + line_chars (drop l input)"
proof -
  let ?b = "cbegin (input ! l)" and ?e = "cend (input ! l)"
  let ?p1 = "scan_tab_not buf ?b ?e"
  let ?p2 = "scan_of_ch buf ?p1 ?e 0 1 C_gt"
  let ?p3 = "scan_of_ch buf ?p2 ?e 0 1 C_SP"
  have "?b \<le> ?p3"
    using scan_tab_not_ge [of ?b buf ?e] scan_of_ch_ge [of ?p1 buf ?e 0 1 C_gt]
      scan_of_ch_ge [of ?p2 buf ?e 0 1 C_SP] by linarith
  then have "?e - ?p3 \<le> ?e - ?b" by simp
  with assms show ?thesis
    by (auto simp: parse_blockquote_line_def Let_def line_chars_drop_Suc [of l] split: if_splits)
qed

lemma parse_blockquote_blank_chars:
  assumes "parse_blockquote_blank buf input l block lz = (line2, block', lz')"
  shows "l \<le> line2 \<and> line_chars block' + line_chars (drop line2 input)
           \<le> line_chars block + line_chars (drop l input)"
  using assms parse_blank_ge [of l input] line_chars_lines_of [of l "parse_blank input l" input]
  by (auto simp: parse_blockquote_blank_def Let_def split: if_splits)

lemma parse_blockquote_loop_chars:
  "parse_blockquote_loop buf input l block lz = (line1, block') \<Longrightarrow>
     l \<le> line1 \<and> line_chars block' + line_chars (drop line1 input)
           \<le> line_chars block + line_chars (drop l input)"
proof (induction buf input l block lz rule: parse_blockquote_loop.induct)
  case (1 buf input l block lz)
  show ?case
  proof (cases "l < length input")
    case False
    with "1.prems" show ?thesis
      by (subst (asm) parse_blockquote_loop.simps) simp
  next
    case True
    obtain line2 block2 lz2 where step:
      "(if LINE = kind (input ! l) then parse_blockquote_line buf input l block lz
        else if BLANK = kind (input ! l) then parse_blockquote_blank buf input l block lz
        else (l, block, lz)) = (line2, block2, lz2)"
      by (metis prod_cases3)
    from step have inv: "l \<le> line2 \<and> line_chars block2 + line_chars (drop line2 input)
           \<le> line_chars block + line_chars (drop l input)"
      using parse_blockquote_line_chars [of buf input l block lz line2 block2 lz2]
        parse_blockquote_blank_chars [of buf input l block lz line2 block2 lz2] True
      by (auto split: if_splits)
    show ?thesis
    proof (cases "line2 = l")
      case True
      with "1.prems" step \<open>l < length input\<close> inv show ?thesis
        by (subst (asm) parse_blockquote_loop.simps) (simp add: Let_def)
    next
      case False
      from "1.prems" step \<open>l < length input\<close> False
      have "parse_blockquote_loop buf input line2 block2 lz2 = (line1, block')"
        by (subst (asm) parse_blockquote_loop.simps) (simp add: Let_def)
      from "1.IH" [OF \<open>l < length input\<close> step [symmetric] refl refl False this] inv
      show ?thesis by linarith
    qed
  qed
qed


lemma scan_of_ch_one:
  "n1 \<le> 1 \<Longrightarrow> scan_of_ch buf p e n1 1 c = (if p < e \<and> c = buf ! p then p + 1 else p)"
  by (simp add: scan_of_ch_def scan_of_loop.simps)

lemma parse_blockquote_block_chars:
  assumes "parse_blockquote_block buf pte input dot = Some b"
    and "dot < length input" and "kind (input ! dot) = LINE"
  shows "dot < fst b \<and> line_chars (snd b) < line_chars (drop dot input)"
proof -
  let ?b = "cbegin (input ! dot)" and ?e = "cend (input ! dot)"
  let ?p1 = "scan_tab_not buf ?b ?e"
  let ?p2 = "scan_of_ch buf ?p1 ?e 1 1 C_gt"
  let ?p3 = "scan_of_ch buf ?p2 ?e 0 1 C_SP"
  let ?p4 = "scan_of buf ?p3 ?e 0 (- 1) ismdspace"
  let ?block0 = "[tok SBLOCKQUOTE ?p2 ?p2]"
  from assms(1) have ne: "?p1 \<noteq> ?p2"
    by (auto simp: parse_blockquote_block_def Let_def split: if_splits)
  then have gt: "?p1 < ?e" "?p2 = ?p1 + 1"
    by (auto simp: scan_of_ch_one split: if_splits)
  have same: "scan_of_ch buf ?p1 ?e 0 1 C_gt = ?p2"
    by (simp add: scan_of_ch_one)
  have "?b \<le> ?p1" by (rule scan_tab_not_ge)
  moreover have "?p2 \<le> ?p3" by (rule scan_of_ch_ge)
  ultimately have lt: "?e - ?p3 < ?e - ?b"
    using gt by linarith
  obtain block1 lz1 where line:
    "parse_blockquote_line buf input dot ?block0 False = (dot + 1, block1, lz1)"
    by (simp add: parse_blockquote_line_def Let_def)
  then have c1: "line_chars block1 < ?e - ?b"
    using lt by (auto simp: parse_blockquote_line_def Let_def same split: if_splits)
  obtain line1 block' where loop:
    "parse_blockquote_loop buf input (dot + 1) block1 lz1 = (line1, block')"
    by fastforce
  have "parse_blockquote_loop buf input dot ?block0 False = (line1, block')"
    using assms(2,3) line loop by (subst parse_blockquote_loop.simps) simp
  with assms(1) ne have b: "b = (line1, block' @ [tok EBLOCKQUOTE (cend (tok_at pte input line1))
                                                 (cend (tok_at pte input line1))])"
    by (auto simp: parse_blockquote_block_def Let_def)
  have d: "line_chars (drop dot input) = (?e - ?b) + line_chars (drop (dot + 1) input)"
    using assms(2,3) by (simp add: line_chars_drop_Suc [of dot])
  have "line_chars (snd b) = line_chars block'" "fst b = line1"
    using b by simp_all
  with parse_blockquote_loop_chars [OF loop] c1 d show ?thesis
    by linarith
qed

lemma parse_list_line_chars:
  assumes "parse_list_line buf input l block ind = (line2, block')"
    and "l < length input" and "kind (input ! l) = LINE"
  shows "line2 = l + 1 \<and> line_chars block' + line_chars (drop line2 input)
           \<le> line_chars block + line_chars (drop l input)"
proof -
  let ?b = "cbegin (input ! l)" and ?e = "cend (input ! l)"
  let ?p1 = "scan_listmark buf ?b ?e"
  have "?b \<le> scan_tab buf ?b ?e" by (rule scan_tab_ge)
  then have a: "?e - scan_tab buf ?b ?e \<le> ?e - ?b" by simp
  have "?b \<le> scan_of buf ?p1 ?e 1 (- 1) ismdspace"
    using scan_listmark_bounds [of buf ?b ?e] scan_of_ge [of ?p1 buf ?e 1 "- 1" ismdspace]
    by linarith
  then have b: "?e - scan_of buf ?p1 ?e 1 (- 1) ismdspace \<le> ?e - ?b" by simp
  from assms a b show ?thesis
    by (auto simp: parse_list_line_def Let_def line_chars_drop_Suc [of l] split: if_splits)
qed

lemma parse_list_blank_chars:
  assumes "parse_list_blank buf input l block ind = (line2, block')"
  shows "l \<le> line2 \<and> line_chars block' + line_chars (drop line2 input)
           \<le> line_chars block + line_chars (drop l input)"
  using assms parse_blank_ge [of l input] line_chars_lines_of [of l "parse_blank input l" input]
    line_chars_drop_mono [of l "parse_blank input l" input]
  by (auto simp: parse_list_blank_def Let_def split: if_splits)

lemma parse_list_loop_chars:
  "parse_list_loop buf input l block ind = (line1, block') \<Longrightarrow>
     l \<le> line1 \<and> line_chars block' + line_chars (drop line1 input)
           \<le> line_chars block + line_chars (drop l input)"
proof (induction buf input l block ind rule: parse_list_loop.induct)
  case (1 buf input l block ind)
  show ?case
  proof (cases "l < length input")
    case False
    with "1.prems" show ?thesis
      by (subst (asm) parse_list_loop.simps) simp
  next
    case True
    obtain line2 block2 where step:
      "(if LINE = kind (input ! l) then parse_list_line buf input l block ind
        else if BLANK = kind (input ! l) then parse_list_blank buf input l block ind
        else (l, block)) = (line2, block2)"
      by fastforce
    from step have inv: "l \<le> line2 \<and> line_chars block2 + line_chars (drop line2 input)
           \<le> line_chars block + line_chars (drop l input)"
      using parse_list_line_chars [of buf input l block ind line2 block2]
        parse_list_blank_chars [of buf input l block ind line2 block2] True
      by (auto split: if_splits)
    show ?thesis
    proof (cases "line2 = l")
      case True
      with "1.prems" step \<open>l < length input\<close> inv show ?thesis
        by (subst (asm) parse_list_loop.simps) (simp add: Let_def)
    next
      case False
      from "1.prems" step \<open>l < length input\<close> False
      have "parse_list_loop buf input line2 block2 ind = (line1, block')"
        by (subst (asm) parse_list_loop.simps) (simp add: Let_def)
      from "1.IH" [OF \<open>l < length input\<close> step [symmetric] refl False this] inv
      show ?thesis by linarith
    qed
  qed
qed

lemma parse_list_block_chars:
  assumes "parse_list_block buf pte input dot = Some b"
    and "dot < length input" and "kind (input ! dot) = LINE"
  shows "dot < fst b \<and> line_chars (snd b) < line_chars (drop dot input)"
proof -
  let ?b = "cbegin (input ! dot)" and ?e = "cend (input ! dot)"
  let ?p1 = "scan_listmark buf ?b ?e"
  let ?p2 = "scan_of buf ?p1 ?e 1 (- 1) ismdspace"
  let ?ind = "buf ! (?p1 - 1)"
  let ?stag = "if C_dot = ?ind then SOLIST else SULIST"
  let ?etag = "if C_dot = ?ind then EOLIST else EULIST"
  let ?block0 = "[tok ?stag ?p2 ?p2, tok SLITEM ?p2 ?p2, tok LINE ?p2 ?e]"
  from assms(1) have ne: "?p1 \<noteq> ?b"
    by (auto simp: parse_list_block_def Let_def split: if_splits)
  then have "?b < ?p1" "?p1 \<le> ?e"
    using scan_listmark_bounds [of buf ?b ?e] by auto
  moreover have "?p1 \<le> ?p2" by (rule scan_of_ge)
  ultimately have lt: "?e - ?p2 < ?e - ?b" by linarith
  obtain line1 block' where loop:
    "parse_list_loop buf input (dot + 1) ?block0 ?ind = (line1, block')"
    by fastforce
  with assms(1) ne have b: "line_chars (snd b) = line_chars block'" "fst b = line1"
    by (auto simp: parse_list_block_def Let_def)
  have d: "line_chars (drop dot input) = (?e - ?b) + line_chars (drop (dot + 1) input)"
    using assms(2,3) by (simp add: line_chars_drop_Suc [of dot])
  have "line_chars ?block0 = ?e - ?p2"
    by simp
  with parse_list_loop_chars [OF loop] lt b d show ?thesis
    by linarith
qed

lemma parse_hrule_ge: "dot \<le> fst (parse_hrule buf input dot output)"
  by (simp add: parse_hrule_def Let_def)

lemma parse_atxheading_ge: "dot \<le> fst (parse_atxheading buf input dot output)"
  by (simp add: parse_atxheading_def Let_def)

lemma parse_seheading_ge: "dot \<le> fst (parse_seheading buf input dot output)"
  by (simp add: parse_seheading_def Let_def)

lemma parse_tabcode_loop_ge: "line1 \<le> fst (parse_tabcode_loop buf input line1 out)"
proof (induction buf input line1 out rule: parse_tabcode_loop.induct)
  case (1 buf input line1 out)
  show ?case
  proof (cases "line1 < length input")
    case False
    then show ?thesis
      by (subst parse_tabcode_loop.simps) simp
  next
    case True
    obtain line2 out2 where step:
      "(if LINE = kind (input ! line1) then parse_tabcode_line buf input line1 out
        else if BLANK = kind (input ! line1) then parse_tabcode_blank buf input line1 out
        else (line1, out)) = (line2, out2)"
      by fastforce
    then have "line1 \<le> line2"
      by (auto split: if_splits dest: parse_tabcode_line_ge parse_tabcode_blank_ge)
    with 1 [OF True step [symmetric] refl] step True show ?thesis
      by (subst parse_tabcode_loop.simps) (auto simp: Let_def)
  qed
qed

lemma parse_tabcode_ge: "dot \<le> fst (parse_tabcode buf pte input dot output)"
  using parse_tabcode_loop_ge [of "dot + 1" buf input]
  by (auto simp: parse_tabcode_def Let_def split: prod.splits)
     (metis Suc_leD fst_conv)

lemma parse_listitem_loop_ge: "line1 \<le> fst (parse_listitem_loop buf input line1 out)"
  by (induction buf input line1 out rule: parse_listitem_loop.induct)
     (subst parse_listitem_loop.simps, auto simp: Let_def)

lemma parse_listitem_ge: "dot \<le> fst (parse_listitem buf input dot output)"
  using parse_listitem_loop_ge [of "dot + 1" buf input]
  by (auto simp: parse_listitem_def Let_def intro: Suc_leD)

lemma parse_paragraph_loop_ge: "line1 \<le> fst (parse_paragraph_loop input line1 out)"
  by (induction input line1 out rule: parse_paragraph_loop.induct)
     (subst parse_paragraph_loop.simps, auto)

lemma parse_paragraph_ge: "dot \<le> fst (parse_paragraph buf pte input dot output)"
  using parse_paragraph_loop_ge [of "dot + 1" input]
  by (auto simp: parse_paragraph_def Let_def split: prod.splits)
     (metis Suc_leD fst_conv)

lemma parse_block_measure:
  "dot < dot' \<Longrightarrow> dot < length input \<Longrightarrow>
     ((buf, pte, input, dot', li', out'), (buf, pte, input, dot, li, out))
       \<in> measures [\<lambda>(buf, pte, input, dot, listitem, out). line_chars (drop dot input),
                    \<lambda>(buf, pte, input, dot, listitem, out). length input - dot]"
  using line_chars_drop_mono [of dot dot' input] by auto

lemma parse_block_measure_nested:
  "line_chars block < line_chars (drop dot input) \<Longrightarrow>
     ((buf, pte, block, 0, li', out'), (buf, pte, input, dot, li, out))
       \<in> measures [\<lambda>(buf, pte, input, dot, listitem, out). line_chars (drop dot input),
                    \<lambda>(buf, pte, input, dot, listitem, out). length input - dot]"
  by auto

lemma neq_le_less: "fst r \<noteq> (x :: nat) \<Longrightarrow> x \<le> fst r \<Longrightarrow> x < fst r"
  by simp

text \<open>
  \<open>parse_block\<close>: the loop over \<open>dot\<close> with the flag \<open>listitem\<close>. Each parser returns the
  iterator it was given when it does not apply. \<open>parse_blockquote\<close> and \<open>parse_list\<close> call
  \<open>parse_block\<close> on the block they collected, and then return an iterator after \<open>line\<close>
  (\<open>parse_blockquote_block_gt\<close> and \<open>parse_list_block_gt\<close> below), so that the test
  \<^verbatim>\<open>(dot = parse_blockquote (line, dol, output)) != line\<close> is the test that a block was
  collected.
\<close>

function parse_block_loop ::
  "wstring \<Rightarrow> token_type \<Rightarrow> token_type list \<Rightarrow> nat \<Rightarrow> bool \<Rightarrow> token_type list
     \<Rightarrow> token_type list" where
  "parse_block_loop buf pte input dot listitem output =
     (if dot < length input then
        (let line = dot;
             listitem = (if SLITEM = kind (input ! line) then True else listitem)
         in
         if LINE = kind (input ! line) then
           (let r = parse_hrule buf input line output in
            if fst r \<noteq> line then parse_block_loop buf pte input (fst r) listitem (snd r)
            else
            let r = parse_tabcode buf pte input line (snd r) in
            if fst r \<noteq> line then parse_block_loop buf pte input (fst r) listitem (snd r)
            else
            case parse_blockquote_block buf pte input line of
              Some b \<Rightarrow>
                parse_block_loop buf pte input (fst b) listitem
                  (parse_block_loop buf pte (snd b) 0 False (snd r))
            | None \<Rightarrow>
            let r = parse_atxheading buf input line (snd r) in
            if fst r \<noteq> line then parse_block_loop buf pte input (fst r) listitem (snd r)
            else
            case parse_list_block buf pte input line of
              Some b \<Rightarrow>
                parse_block_loop buf pte input (fst b) listitem
                  (parse_block_loop buf pte (snd b) 0 False (snd r))
            | None \<Rightarrow>
            let r = parse_seheading buf input line (snd r) in
            if fst r \<noteq> line then parse_block_loop buf pte input (fst r) listitem (snd r)
            else
            let r = (if listitem then parse_listitem buf input line (snd r)
                     else parse_paragraph buf pte input line (snd r));
                listitem = False
            in
            if fst r \<noteq> line then parse_block_loop buf pte input (fst r) listitem (snd r)
            else
              parse_block_loop buf pte input (fst r + 1) listitem (snd r @ [input ! fst r]))
         else
           parse_block_loop buf pte input (dot + 1) listitem (output @ [input ! dot]))
      else output)"
  by pat_completeness auto


termination
proof (relation "measures [\<lambda>(buf, pte, input, dot, listitem, out). line_chars (drop dot input),
                    \<lambda>(buf, pte, input, dot, listitem, out). length input - dot]", goal_cases)
  case 1
  show ?case by simp
next
  case 2
  then show ?case
    by (intro parse_block_measure neq_le_less) (simp_all add: parse_hrule_ge)
next
  case 3
  then show ?case
    by (intro parse_block_measure neq_le_less) (simp_all add: parse_tabcode_ge)
next
  case 4
  then show ?case
    by (intro parse_block_measure neq_le_less) (simp_all add: parse_atxheading_ge)
next
  case 5
  then show ?case
    by (intro parse_block_measure neq_le_less) (simp_all add: parse_seheading_ge)
next
  case 6
  then show ?case
    by (intro parse_block_measure neq_le_less)
       (simp_all add: parse_listitem_ge parse_paragraph_ge)
next
  case 7
  then show ?case
    by (intro parse_block_measure) simp_all
next
  case 8
  then show ?case
    by (intro parse_block_measure_nested) (simp add: parse_list_block_chars)
next
  case 9
  then show ?case
    by (intro parse_block_measure) (simp_all add: parse_list_block_chars)
next
  case 10
  then show ?case
    by (intro parse_block_measure_nested) (simp add: parse_blockquote_block_chars)
next
  case 11
  then show ?case
    by (intro parse_block_measure) (simp_all add: parse_blockquote_block_chars)
next
  case 12
  then show ?case
    by (intro parse_block_measure) simp_all
qed


declare parse_block_loop.simps [simp del]

definition parse_block ::
  "wstring \<Rightarrow> token_type \<Rightarrow> token_type list \<Rightarrow> token_type list \<Rightarrow> token_type list" where
  "parse_block buf pte input output = parse_block_loop buf pte input 0 False output"

section \<open>The line tokenizer\<close>

definition check_blockend :: "wstring \<Rightarrow> nat \<Rightarrow> nat \<Rightarrow> nat" where
  "check_blockend buf pos eos =
     (let p1 = scan_of buf pos eos 0 (- 1) ismdspace;
          p2 = scan_of_ch buf p1 eos 1 1 C_LF;
          p3 = scan_of buf p2 eos 0 (- 1) ismdspace;
          p4 = scan_of_ch buf p3 eos 1 1 C_LF
      in if eos \<le> p4 \<or> (p1 < p2 \<and> p3 < p4) then p2 else pos)"

lemma search_ge: "p \<le> eos \<Longrightarrow> p \<le> search buf p eos pat"
proof (induction buf p eos pat rule: search.induct)
  case (1 buf p eos pat)
  show ?case
  proof (cases "p + length pat \<le> eos \<and> slice buf p (p + length pat) \<noteq> pat")
    case True
    then have "pat \<noteq> []"
      by (auto simp: slice_def)
    with True have "p + 1 \<le> eos"
      by (cases pat) auto
    with 1 True show ?thesis
      by (subst search.simps) auto
  next
    case False
    with "1.prems" show ?thesis
      by (subst search.simps) auto
  qed
qed

function parse_blockcode_loop ::
  "wstring \<Rightarrow> nat \<Rightarrow> nat \<Rightarrow> nat \<Rightarrow> nat \<Rightarrow> nat \<Rightarrow> nat \<Rightarrow> token_type list
     \<Rightarrow> nat \<times> token_type list" where
  "parse_blockcode_loop buf pos eos p1 p2 codebegin p3 output =
     (if p3 < eos then
        (let pat = [C_LF, C_backtick, C_backtick, C_backtick];
             p4 = search buf p3 eos pat
         in
         if p4 = eos then (pos, output)
         else
           let codeend = p4;
               p3 = p4 + length pat;
               p5 = check_blockend buf p3 eos
           in
           if p5 \<ge> eos \<or> p3 < p5 then
             (p5, output @ [tok SPRE p1 p2, tok CODE codebegin codeend,
                            tok EPRE codeend codeend])
           else parse_blockcode_loop buf pos eos p1 p2 codebegin p3 output)
      else (pos, output))"
  by pat_completeness auto
termination
proof (relation "measure (\<lambda>(buf, pos, eos, p1, p2, codebegin, p3, out). eos - p3)", goal_cases)
  case (2 buf pos eos p1 p2 codebegin p3 out pat p4 codeend p3' p5)
  then show ?case
    using search_ge [of p3 eos buf pat] by auto
qed simp

declare parse_blockcode_loop.simps [simp del]

definition parse_blockcode ::
  "wstring \<Rightarrow> nat \<Rightarrow> nat \<Rightarrow> nat \<Rightarrow> token_type list \<Rightarrow> nat \<times> token_type list" where
  "parse_blockcode buf bos pos eos output =
     (if int pos - 2 \<ge> int bos \<and> C_LF \<noteq> buf ! (pos - 2) then (pos, output)
      else if int pos - 1 \<ge> int bos \<and> C_LF \<noteq> buf ! (pos - 1) then (pos, output)
      else
        let p1 = scan_of_ch buf pos eos 3 3 C_backtick in
        if p1 = pos then (pos, output)
        else
          let p2 = scan_of buf p1 eos 0 (- 1) ismdprint;
              p3 = scan_of_ch buf p2 eos 1 1 C_LF
          in
          if p3 = p2 then (pos, output)
          else parse_blockcode_loop buf pos eos p1 p2 (p3 + 1) p3 output)"

definition scan_htmlcomment :: "wstring \<Rightarrow> nat \<Rightarrow> nat \<Rightarrow> wstring \<Rightarrow> nat \<times> wstring" where
  "scan_htmlcomment buf pos eos tagname =
     (let p1 = scan_of_ch buf pos eos 1 1 C_lt;
          p2 = scan_of_ch buf p1 eos 1 1 C_bang;
          p3 = scan_of_ch buf p2 eos 2 2 C_minus
      in
      if \<not> (pos < p1 \<and> p1 < p2 \<and> p2 < p3) then (pos, tagname)
      else
        let tagname = wstr ''!COMMENT'';
            pat = [C_minus, C_minus, C_gt];
            p4 = search buf p3 eos pat
        in if p4 = eos then (pos, tagname) else (p4 + length pat, tagname))"

definition scan_htmlattr :: "wstring \<Rightarrow> nat \<Rightarrow> nat \<Rightarrow> nat option" where
  "scan_htmlattr buf pos eos =
     (let p1 = scan_of buf pos eos 1 (- 1) ismdwhite;
          p2 = scan_of buf p1 eos 1 (- 1) ishtname
      in
      if \<not> (pos < p1 \<and> p1 < p2) then Some pos
      else
        let p3 = scan_of buf p2 eos 0 (- 1) ismdwhite;
            p4 = scan_of_ch buf p3 eos 1 1 C_equals
        in
        if p4 = p3 then Some p2
        else
          let p5 = scan_of buf p4 eos 0 (- 1) ismdwhite in
          do {
            p6 \<leftarrow> (if p5 < eos
                       \<and> (C_dquote = buf ! p5 \<or> C_squote = buf ! p5 \<or> C_backtick = buf ! p5)
                     then scan_quoted buf p5 eos (buf ! p5) (buf ! p5) C_backslash ismdany
                     else Some (scan_of buf p5 eos 1 (- 1) ishtattr));
            if p6 = p5 then Some pos else Some p6
          })"

lemma scan_htmlattr_ge: "scan_htmlattr buf pos eos = Some r \<Longrightarrow> pos \<le> r"
proof -
  assume a: "scan_htmlattr buf pos eos = Some r"
  let ?p1 = "scan_of buf pos eos 1 (- 1) ismdwhite"
  let ?p2 = "scan_of buf ?p1 eos 1 (- 1) ishtname"
  let ?p3 = "scan_of buf ?p2 eos 0 (- 1) ismdwhite"
  let ?p4 = "scan_of_ch buf ?p3 eos 1 1 C_equals"
  let ?p5 = "scan_of buf ?p4 eos 0 (- 1) ismdwhite"
  have b: "pos \<le> ?p1" "?p1 \<le> ?p2" "?p2 \<le> ?p3" "?p3 \<le> ?p4" "?p4 \<le> ?p5"
    by (rule scan_of_ge scan_of_ch_ge)+
  have c: "?p5 \<le> scan_of buf ?p5 eos 1 (- 1) ishtattr"
    by (rule scan_of_ge)
  from a b c show ?thesis
    by (auto simp: scan_htmlattr_def Let_def split: if_splits bind_splits
        dest!: scan_quoted_ge)
qed


function scan_htmltag_loop :: "wstring \<Rightarrow> nat \<Rightarrow> nat \<Rightarrow> nat option" where
  "scan_htmltag_loop buf eos p4 =
     (if p4 < eos then
        (case scan_htmlattr buf p4 eos of
           None \<Rightarrow> None
         | Some p5 \<Rightarrow> if p5 = p4 then Some p4 else scan_htmltag_loop buf eos p5)
      else Some p4)"
  by pat_completeness auto
termination
proof (relation "measure (\<lambda>(buf, eos, p4). eos - p4)", goal_cases)
  case (2 buf eos p4 p5)
  then show ?case
    using scan_htmlattr_ge [of buf p4 eos p5] by auto
qed simp

declare scan_htmltag_loop.simps [simp del]

definition scan_htmltag ::
  "wstring \<Rightarrow> nat \<Rightarrow> nat \<Rightarrow> wstring \<Rightarrow> (nat \<times> wstring) option" where
  "scan_htmltag buf pos eos tagname =
     (let (pcom, tagname) = scan_htmlcomment buf pos eos tagname in
      if pos < pcom then Some (pcom, tagname)
      else
        let p1 = scan_of_ch buf pos eos 1 1 C_lt;
            p2 = scan_of_ch buf p1 eos 0 1 C_slash;
            p3 = scan_of buf p2 eos 1 (- 1) ishtname
        in
        if \<not> (pos < p1 \<and> p2 < p3) then Some (pos, tagname)
        else
          let tagname = slice buf p1 p3 in
          do {
            p4 \<leftarrow> scan_htmltag_loop buf eos p3;
            let p6 = scan_of buf p4 eos 0 (- 1) ismdwhite;
                p7 = scan_of_ch buf p6 eos 0 1 C_slash;
                p8 = scan_of_ch buf p7 eos 1 1 C_gt
            in if p8 = p7 then Some (pos, tagname) else Some (p8, tagname)
          })"

definition blocktag :: wstring where
  "blocktag = wstr ('' blockquote del div dl fieldset figure form h1 h2 h3 h4 h5 h6''
     @ '' hr iframe ins noscript math ol p pre script table ul !COMMENT '')"

function parse_blockhtml_loop ::
  "wstring \<Rightarrow> nat \<Rightarrow> nat \<Rightarrow> wstring \<Rightarrow> nat \<Rightarrow> token_type list \<Rightarrow> nat \<times> token_type list"
  where
  "parse_blockhtml_loop buf pos eos pat2 p1 output =
     (if p1 < eos then
        (let p2 = search buf p1 eos pat2 in
         if p2 = eos then (pos, output)
         else
           let p3 = scan_of buf (p2 + length pat2) eos 0 (- 1) ismdwhite;
               p1 = scan_of_ch buf p3 eos 1 1 C_gt
           in
           if p1 = p3 then (pos, output)
           else
             let p5 = check_blockend buf p1 eos in
             if p5 \<ge> eos \<or> p1 < p5 then (p5, output @ [tok HTML pos p5])
             else parse_blockhtml_loop buf pos eos pat2 p1 output)
      else (pos, output))"
  by pat_completeness auto
termination
proof (relation "measure (\<lambda>(buf, pos, eos, pat2, p1, out). eos - p1)", goal_cases)
  case (2 buf pos eos pat2 p1 out p2 p3 p1' p5)
  then show ?case
    using search_ge [of p1 eos buf pat2]
      scan_of_ge [of "p2 + length pat2" buf eos 0 "- 1" ismdwhite]
      scan_of_ch_ge [of p3 buf eos 1 1 C_gt]
    by auto
qed simp

declare parse_blockhtml_loop.simps [simp del]

definition parse_blockhtml ::
  "wstring \<Rightarrow> nat \<Rightarrow> nat \<Rightarrow> nat \<Rightarrow> token_type list \<Rightarrow> (nat \<times> token_type list) option"
  where
  "parse_blockhtml buf bos pos eos output =
     (if int pos - 2 \<ge> int bos \<and> C_LF \<noteq> buf ! (pos - 2) then Some (pos, output)
      else if int pos - 1 \<ge> int bos \<and> C_LF \<noteq> buf ! (pos - 1) then Some (pos, output)
      else
        do {
          (p1, tagname) \<leftarrow> scan_htmltag buf pos eos [];
          if p1 = pos then Some (pos, output)
          else
            let pat1 = [C_SP] @ tagname @ [C_SP] in
            if search blocktag 0 (length blocktag) pat1 = length blocktag then Some (pos, output)
            else if tagname = wstr ''hr'' \<or> tagname = wstr ''!COMMENT''
                \<or> C_slash = buf ! (p1 - 2) then
              (let p3 = check_blockend buf p1 eos in
               if p3 \<ge> eos \<or> p1 < p3 then Some (p3, output @ [tok HTML pos p3])
               else Some (pos, output))
            else
              (let pat2 = wstr ''</'' @ tagname
               in Some (parse_blockhtml_loop buf pos eos pat2 p1 output))
        })"

definition scan_refdef_id ::
  "wstring \<Rightarrow> nat \<Rightarrow> nat \<Rightarrow> wstring \<Rightarrow> (nat \<times> wstring) option" where
  "scan_refdef_id buf pos eos ident =
     (let p1 = scan_tab_not buf pos eos in
      do {
        p2 \<leftarrow> scan_quoted buf p1 eos C_lbracket C_rbracket C_backslash ismdprint;
        if p1 < p2 \<and> C_rbracket = buf ! (p1 + 1) then Some (pos, ident)
        else
          let p3 = scan_of_ch buf p2 eos 1 1 C_colon;
              p4 = scan_of buf p3 eos 1 (- 1) ismdspace
          in
          if \<not> (p1 < p2 \<and> p2 < p3 \<and> p3 < p4) then Some (pos, ident)
          else Some (p4, decode_linkid buf (p1 + 1) (p2 - 1) [])
      })"

definition scan_refdef_uri ::
  "wstring \<Rightarrow> nat \<Rightarrow> nat \<Rightarrow> wstring \<Rightarrow> (nat \<times> wstring) option" where
  "scan_refdef_uri buf pos eos u =
     do {
       p3 \<leftarrow> scan_quoted buf pos eos C_lt C_gt C_backslash ismdprint;
       let (p1, p2, p3) =
         (if pos < p3 then (pos + 1, p3 - 1, p3)
          else let p3 = scan_of buf pos eos 1 (- 1) ismdgraph in (pos, p3, p3))
       in if p1 \<ge> p2 then Some (pos, u) else Some (p3, slice buf p1 p2)
     }"

definition scan_refdef_title ::
  "wstring \<Rightarrow> nat \<Rightarrow> nat \<Rightarrow> wstring \<Rightarrow> nat \<times> wstring" where
  "scan_refdef_title buf pos eos t =
     (let p1 = scan_of buf pos eos 0 (- 1) ismdspace;
          p2 = scan_of_ch buf p1 eos 1 1 C_LF;
          p2 = (if p1 < p2 then scan_of buf p2 eos 0 (- 1) ismdspace else p2)
      in
      if pos < p2 \<and> p2 < eos
         \<and> (C_dquote = buf ! p2 \<or> C_squote = buf ! p2 \<or> C_backtick = buf ! p2
            \<or> C_lparen = buf ! p2) then
        (let qq = (if C_lparen = buf ! p2 then C_rparen else buf ! p2);
             p4 = scan_of buf p2 eos 0 (- 1) ismdprint;
             p3 = rscan_of buf p2 p4 ismdspace
         in
         if int p3 - int p2 > 2 \<and> qq = buf ! (p3 - 1) then (p4, slice buf (p2 + 1) (p3 - 1))
         else (pos, t))
      else (pos, t))"

text \<open>\<^verbatim>\<open>entry.id[0]\<close> is the terminating null character when the string is empty.\<close>

definition wstring_front :: "wstring \<Rightarrow> wchar" where
  "wstring_front w = (case w of [] \<Rightarrow> 0 | c # _ \<Rightarrow> c)"

definition parse_refdef ::
  "wstring \<Rightarrow> nat \<Rightarrow> nat \<Rightarrow> refdict_type \<Rightarrow> (nat \<times> refdict_type) option" where
  "parse_refdef buf pos eos dict =
     do {
       (p1, ident) \<leftarrow> scan_refdef_id buf pos eos [];
       if p1 = pos \<or> C_caret = wstring_front ident then Some (pos, dict)
       else
         do {
           (p2, u) \<leftarrow> scan_refdef_uri buf p1 eos [];
           if p2 = pos then Some (pos, dict)
           else
             let (p3, t) = scan_refdef_title buf p2 eos [];
                 p4 = scan_of buf p3 eos 0 (- 1) ismdspace;
                 p5 = scan_of_ch buf p4 eos 1 1 C_LF
             in
             if p5 < eos \<and> p4 = p5 then Some (pos, dict)
             else Some (p5, dict(ident \<mapsto> \<lparr>rf_id = ident, rf_uri = u, rf_title = t\<rparr>))
         }
     }"

partial_function (option) split_lines_loop ::
  "wstring \<Rightarrow> nat \<Rightarrow> token_type list \<times> refdict_type
     \<Rightarrow> (token_type list \<times> refdict_type) option" where
  "split_lines_loop buf p4 st =
     (case st of (output, dict) \<Rightarrow>
      if p4 < length buf then
        (let p1 = p4;
             (p4, output) = parse_blockcode buf 0 p1 (length buf) output
         in
         if p4 > p1 then split_lines_loop buf p4 (output, dict)
         else
           do {
             (p4, output) \<leftarrow> parse_blockhtml buf 0 p1 (length buf) output;
             if p4 > p1 then split_lines_loop buf p4 (output, dict)
             else
               do {
                 (p4, dict) \<leftarrow> parse_refdef buf p1 (length buf) dict;
                 if p4 > p1 then split_lines_loop buf p4 (output, dict)
                 else
                   let p2 = scan_of buf p1 (length buf) 0 (- 1) ismdspace;
                       p3 = scan_of buf p2 (length buf) 0 (- 1) ismdprint;
                       p4 = scan_of_ch buf p3 (length buf) 1 1 C_LF
                   in
                   if p2 = p3 then split_lines_loop buf p4 (output @ [tok BLANK p3 p4], dict)
                   else split_lines_loop buf p4 (output @ [tok LINE p1 p4], dict)
               }
           })
      else Some (output, dict))"

declare split_lines_loop.simps [code]

definition split_lines :: "wstring \<Rightarrow> (token_type list \<times> refdict_type) option" where
  "split_lines input = split_lines_loop input 0 ([], Map.empty)"


section \<open>The inline parser\<close>

text \<open>
  The inline parser works on the string \<open>buf\<close> built from a run of \<open>INLINE\<close> tokens. Its
  state is the token sequence \<open>output\<close>, which it also patches in place, and the stack \<open>nest\<close>
  of pending start markers.
\<close>

definition parse_text :: "nat \<Rightarrow> nat \<Rightarrow> token_type list \<Rightarrow> nat \<times> token_type list" where
  "parse_text tbegin tend output =
     (if tbegin \<ge> tend then (tend, output)
      else if output \<noteq> [] \<and> TEXT = kind (last output) \<and> cend (last output) = tbegin then
        (tend, butlast output @ [(last output)\<lparr>cend := tend\<rparr>])
      else (tend, output @ [tok TEXT tbegin tend]))"

fun nest_exists :: "nest_type list \<Rightarrow> int \<Rightarrow> bool" where
  "nest_exists [] k = False"
| "nest_exists (i # nestlist) k =
     (if k = 0 \<and> nest_n i = 0 then True
      else if k = 1 \<and> (nest_n i = 1 \<or> nest_n i = 3) then True
      else if k = 2 \<and> (nest_n i = 2 \<or> nest_n i = 3) then True
      else if k = 3 \<and> (nest_n i = 1 \<or> nest_n i = 2 \<or> nest_n i = 3) then True
      else nest_exists nestlist k)"

definition patch_emphasis ::
  "wstring \<Rightarrow> nat \<Rightarrow> nat \<Rightarrow> bool \<Rightarrow> bool \<Rightarrow> token_type list \<Rightarrow> nest_type list
     \<Rightarrow> token_type list \<times> nest_type list" where
  "patch_emphasis buf embegin emend leftwhite rightwhite output nest =
     (let n1 = int emend - int embegin;
          n2 = 3 - n1;
          sem1 = (if 1 = n1 then SEM else SSTRONG);
          eem1 = (if 1 = n1 then EEM else ESTRONG);
          sem2 = (if 1 = n2 then SEM else SSTRONG);
          already = nest_exists nest n1
      in
      if \<not> already \<and> \<not> rightwhite then
        (output @ [tok sem1 embegin emend],
         nest @ [\<lparr>nest_pos = length output, nest_n = n1\<rparr>])
      else if already \<and> (nest_n (last nest) = n1 \<or> nest_n (last nest) = 3)
          \<and> \<not> leftwhite
          \<and> buf ! cbegin (output ! nest_pos (last nest)) = buf ! embegin then
        (let nest = butlast nest;
             output = output @ [tok eem1 embegin emend]
         in
         if nest \<noteq> [] \<and> nest_n (last nest) = 3 then
           (let pos = nest_pos (last nest);
                output = output[pos := (output ! pos)
                  \<lparr>kind := sem2, cend := cbegin (output ! pos) + nat n2\<rparr>];
                output = output[pos + 1 := (output ! (pos + 1))\<lparr>kind := sem1\<rparr>]
            in (output, butlast nest @ [(last nest)\<lparr>nest_n := n2\<rparr>]))
         else (output, nest))
      else (output @ [tok TEXT embegin emend], nest))"

definition patch_emphasis_three ::
  "wstring \<Rightarrow> nat \<Rightarrow> nat \<Rightarrow> bool \<Rightarrow> bool \<Rightarrow> token_type list \<Rightarrow> nest_type list
     \<Rightarrow> token_type list \<times> nest_type list" where
  "patch_emphasis_three buf embegin emend leftwhite rightwhite output nest =
     (let nnest = length nest;
          already = nest_exists nest 3
      in
      if \<not> already \<and> \<not> rightwhite then
        (output @ [tok SSTRONG embegin emend, tok SEM embegin embegin],
         nest @ [\<lparr>nest_pos = length output, nest_n = 3\<rparr>,
                 \<lparr>nest_pos = length output, nest_n = 3\<rparr>])
      else if already \<and> nnest \<ge> 2 \<and> nest_n (nest ! (nnest - 1)) > 0
          \<and> nest_n (nest ! (nnest - 2)) > 0
          \<and> \<not> (leftwhite \<or> buf ! cbegin (output ! nest_pos (last nest)) \<noteq> buf ! embegin) then
        (if nest_n (last nest) \<noteq> 2 then
           (output @ [tok EEM embegin emend, tok ESTRONG embegin emend], butlast (butlast nest))
         else
           (output @ [tok ESTRONG embegin emend, tok EEM embegin emend], butlast (butlast nest)))
      else (snd (parse_text embegin emend output), nest))"

definition parse_space ::
  "wstring \<Rightarrow> nat \<Rightarrow> nat \<Rightarrow> token_type list \<Rightarrow> nat \<times> token_type list" where
  "parse_space buf pos eos output =
     (let p1 = scan_of_ch buf pos eos 1 (- 1) C_SP;
          p2 = scan_of_ch buf p1 eos 1 1 C_LF
      in
      if int p1 - int pos \<ge> 2 \<and> p1 < p2 then (p2, output @ [tok BREAK pos p2])
      else parse_text pos p2 output)"

definition parse_escape ::
  "wstring \<Rightarrow> nat \<Rightarrow> nat \<Rightarrow> token_type list \<Rightarrow> nat \<times> token_type list" where
  "parse_escape buf pos eos output =
     (let p1 = scan_of_ch buf pos eos 1 1 C_backslash;
          p2 = scan_of buf p1 eos 1 1 ismdescapable
      in
      if p1 = p2 then parse_text pos p1 output
      else parse_text pos p2 output)"

definition parse_inlinecode ::
  "wstring \<Rightarrow> nat \<Rightarrow> nat \<Rightarrow> token_type list \<Rightarrow> nat \<times> token_type list" where
  "parse_inlinecode buf pos eos output =
     (let p1 = scan_of_ch buf pos eos 1 (- 1) C_backtick;
          p2 = scan_of buf p1 eos 0 (- 1) ismdwhite;
          p3 = search buf p2 eos (slice buf pos p1)
      in
      if p3 = eos then parse_text pos p2 output
      else
        let p4 = scan_of_ch buf (p3 + (p1 - pos)) eos 0 (- 1) C_backtick;
            p3 = p4 - (p1 - pos);
            p3 = rscan_of buf p2 p3 ismdwhite
        in (p4, output @ [tok SCODE p2 p2, tok CODE p2 p3, tok ECODE p3 p3]))"

definition parse_emphasis ::
  "wstring \<Rightarrow> nat \<Rightarrow> nat \<Rightarrow> nat \<Rightarrow> token_type list \<Rightarrow> nest_type list
     \<Rightarrow> nat \<times> token_type list \<times> nest_type list" where
  "parse_emphasis buf bos pos eos output nest =
     (let p1 = scan_of_ch buf pos eos 1 (- 1) (buf ! pos);
          k = int p1 - int pos;
          leftwhite = (pos = bos \<or> ismdwhite (buf ! (pos - 1)));
          rightwhite = (p1 = eos \<or> ismdwhite (buf ! p1)
            \<or> ((C_dot = buf ! p1 \<or> C_comma = buf ! p1 \<or> C_semi = buf ! p1
                  \<or> C_colon = buf ! p1)
                \<and> (p1 + 1 = eos \<or> ismdwhite (buf ! (p1 + 1)))))
      in
      if k > 3 \<or> (leftwhite \<and> rightwhite) then
        (let (r, output) = parse_text pos p1 output in (r, output, nest))
      else if k = 1 then
        (let (output, nest) = patch_emphasis buf pos p1 leftwhite rightwhite output nest
         in (p1, output, nest))
      else if k = 2 then
        (let (output, nest) = patch_emphasis buf pos p1 leftwhite rightwhite output nest
         in (p1, output, nest))
      else if k = 3 then
        (let (output, nest) = patch_emphasis_three buf pos p1 leftwhite rightwhite output nest
         in (p1, output, nest))
      else (p1, output, nest))"

definition scheme :: "wstring list" where
  "scheme = map wstr [''https://'', ''http://'', ''ftp://'', ''ftps://'', ''mailto:'']"

definition match_uri :: "wstring \<Rightarrow> nat \<Rightarrow> nat \<Rightarrow> bool" where
  "match_uri buf p e =
     list_ex (\<lambda>s. int e - int p \<ge> int (length s) \<and> slice buf p (p + length s) = s) scheme"

definition parse_angle ::
  "wstring \<Rightarrow> nat \<Rightarrow> nat \<Rightarrow> token_type list \<Rightarrow> (nat \<times> token_type list) option" where
  "parse_angle buf pos eos output =
     do {
       (p1, tagname) \<leftarrow> scan_htmltag buf pos eos [];
       if pos < p1 then Some (p1, output @ [tok HTML pos p1])
       else
         do {
           p2 \<leftarrow> scan_quoted buf pos eos C_lt C_gt C_backslash ismdprint;
           if int p2 - int pos > 2 \<and> match_uri buf (pos + 1) (p2 - 1) then
             Some (p2, output @ [tok SABEGIN pos pos, tok URI (pos + 1) (p2 - 1),
                                 tok SAEND p2 p2, tok TEXT (pos + 1) (p2 - 1), tok EA p2 p2])
           else
             let output = (if int p2 - int pos > 2 then snd (parse_text pos p2 output)
                           else output);
                 p3 = scan_of_ch buf pos eos 1 (- 1) C_lt
             in Some (parse_text pos p3 output)
         }
     }"

definition parse_link_bracket ::
  "wstring \<Rightarrow> nat \<Rightarrow> nat \<Rightarrow> nat \<Rightarrow> nat \<Rightarrow> token_type list
     \<Rightarrow> (nat \<times> token_type list) option" where
  "parse_link_bracket buf pos eos altbegin altend attribute =
     (let p1 = scan_of buf pos eos 0 (- 1) ismdwhite in
      do {
        p2 \<leftarrow> scan_quoted buf p1 eos C_lbracket C_rbracket C_backslash ismdany;
        if int p2 - int p1 > 2 then Some (p2, attribute @ [tok LINKID (p1 + 1) (p2 - 1)])
        else Some (p2, attribute @ [tok LINKID altbegin altend])
      })"

lemma find_ch_ge: "p \<le> eos \<Longrightarrow> p \<le> find_ch buf p eos c"
  unfolding find_ch_def
  by (induction buf p eos "[c]" rule: find_first_of.induct) (subst find_first_of.simps, auto)

function parse_link_paren_title :: "wstring \<Rightarrow> nat \<Rightarrow> wchar \<Rightarrow> nat \<Rightarrow> nat" where
  "parse_link_paren_title buf p5 qq p4 =
     (if p4 < p5 \<and> \<not> ismdwhite (buf ! (p4 - 1)) then
        parse_link_paren_title buf p5 qq (find_ch buf (p4 + 1) p5 qq)
      else p4)"
  by pat_completeness auto
termination
proof (relation "measure (\<lambda>(buf, p5, qq, p4). p5 - p4)", goal_cases)
  case (2 buf p5 qq p4)
  then show ?case
    using find_ch_ge [of "p4 + 1" p5 buf qq] by auto
qed simp

declare parse_link_paren_title.simps [simp del]

definition parse_link_paren ::
  "wstring \<Rightarrow> nat \<Rightarrow> nat \<Rightarrow> token_type list \<Rightarrow> (nat \<times> token_type list) option" where
  "parse_link_paren buf pos eos attribute =
     do {
       p6 \<leftarrow> scan_quoted buf pos eos C_lparen C_rparen C_backslash ismdany;
       if pos = p6 then Some (pos, attribute)
       else
         let p1 = pos + 1;
             p5 = rscan_of buf p1 (p6 - 1) ismdwhite
         in
         do {
           p2 \<leftarrow> (if C_lt = buf ! p1 then
                     do {
                       p2 \<leftarrow> scan_quoted buf p1 p5 C_lt C_gt C_backslash ismdany;
                       Some (if p1 = p2 then p1 + 1 else p2 - 1)
                     }
                   else Some (let p2 = p5 in if p2 = p5 then p1 + 1 else p2 + 1));
           let (p3, p4) =
             (if C_dquote = buf ! (p5 - 1) \<or> C_squote = buf ! (p5 - 1) then
                (let qq = buf ! (p5 - 1);
                     p4 = find_ch buf p2 p5 qq;
                     p4 = parse_link_paren_title buf p5 qq p4
                 in (rscan_of buf p2 p4 ismdwhite, p4))
              else (p5, p5));
               attribute =
                 (if int p3 - int p1 > 1 \<and> C_lt = buf ! p1 \<and> C_gt = buf ! (p3 - 1) then
                    attribute @ [tok URI (p1 + 1) (p3 - 1)]
                  else attribute @ [tok URI p1 p3]);
               attribute =
                 (if int p5 - int p4 > 1 \<and> buf ! p4 = buf ! (p5 - 1)
                     \<and> (C_dquote = buf ! (p5 - 1) \<or> C_squote = buf ! (p5 - 1)) then
                    attribute @ [tok TITLE (p4 + 1) (p5 - 1)]
                  else attribute)
           in Some (p6, attribute)
         }
     }"

definition parse_make_link ::
  "nat \<Rightarrow> nat \<Rightarrow> token_type list \<Rightarrow> token_type list \<Rightarrow> token_type list
     \<Rightarrow> nat \<times> token_type list" where
  "parse_make_link lbegin lend inner attribute output =
     (lend, output @ [tok SABEGIN lbegin lbegin] @ attribute @ [tok SAEND lbegin lbegin]
              @ inner @ [tok EA lend lend])"

definition parse_fetch_reference_link ::
  "wstring \<Rightarrow> refdict_type \<Rightarrow> token_type list \<Rightarrow> bool \<times> token_type list" where
  "parse_fetch_reference_link buf dict attribute =
     (let linkid = decode_linkid buf (cbegin (attribute ! 0)) (cend (attribute ! 0)) [] in
      case dict linkid of
        None \<Rightarrow> (False, attribute)
      | Some rf \<Rightarrow>
          (True,
           [\<lparr>kind = URI, cbegin = 0, cend = length (rf_uri rf), base = Some (rf_uri rf)\<rparr>]
           @ (if rf_title rf \<noteq> [] then
                [\<lparr>kind = TITLE, cbegin = 0, cend = length (rf_title rf),
                  base = Some (rf_title rf)\<rparr>]
              else [])))"

definition parse_make_image ::
  "nat \<Rightarrow> token_type list \<Rightarrow> token_type list \<Rightarrow> token_type list \<Rightarrow> nat \<times> token_type list"
  where
  "parse_make_image pos inner attribute output =
     (pos, output @ [tok IMGBEGIN pos pos] @ attribute @ inner @ [tok IMGEND pos pos])"

definition parse_image ::
  "wstring \<Rightarrow> refdict_type \<Rightarrow> nat \<Rightarrow> nat \<Rightarrow> token_type list
     \<Rightarrow> (nat \<times> token_type list) option" where
  "parse_image buf dict pos eos output =
     (let p1 = scan_of_ch buf pos eos 1 1 C_bang;
          p2 = scan_of_ch buf p1 eos 1 1 C_lbracket
      in
      if pos = p1 \<or> p1 = p2 then Some (pos, output)
      else
        do {
          p3 \<leftarrow> scan_quoted buf p1 eos C_lbracket C_rbracket C_backslash ismdany;
          if p1 = p3 then Some (parse_text pos p2 output)
          else
            let inner = [tok ALT p2 (p3 - 1)] in
            do {
              (p4, attribute) \<leftarrow> parse_link_paren buf p3 eos [];
              if p3 < p4 then Some (parse_make_image p4 inner attribute output)
              else
                do {
                  (p5, attribute) \<leftarrow> parse_link_bracket buf p3 eos p2 (p3 - 1) attribute;
                  let (found, attribute) = parse_fetch_reference_link buf dict attribute in
                  if found then Some (parse_make_image p5 inner attribute output)
                  else Some (parse_text pos p5 output)
                }
            }
        })"


text \<open>
  The loop of \<open>parse_link\<close> that rewrites to \<open>TEXT\<close> the start markers left open inside the
  brackets, down to the frame of kind 0 that \<open>parse_link\<close> pushed.
\<close>

function parse_link_unwind ::
  "token_type list \<Rightarrow> nest_type list \<Rightarrow> token_type list \<times> nest_type list" where
  "parse_link_unwind inner nest =
     (if nest \<noteq> [] \<and> nest_n (last nest) \<noteq> 0 then
        parse_link_unwind
          (inner[nest_pos (last nest) := (inner ! nest_pos (last nest))\<lparr>kind := TEXT\<rparr>])
          (butlast nest)
      else (inner, nest))"
  by pat_completeness auto
termination
  by (relation "measure (\<lambda>(inner, nest). length nest)") auto

declare parse_link_unwind.simps [simp del]

text \<open>
  \<open>parse_inline_loop\<close> and \<open>parse_link\<close> call each other, and neither need return: they are
  one function \<open>parse_inline_rec\<close> with a flag (\<open>True\<close> for \<open>parse_link\<close>), and \<open>None\<close> is a
  run that does not end. The state of the loop of \<open>parse_inline_loop\<close> is its position,
  the output and the nest, so one iteration followed by the rest of the loop is the loop
  from the new position.
\<close>

type_synonym inline_state = "nat \<times> nat \<times> token_type list \<times> nest_type list"

partial_function (option) parse_inline_rec ::
  "wstring \<times> refdict_type \<times> nat \<Rightarrow> bool \<Rightarrow> inline_state
     \<Rightarrow> (nat \<times> token_type list \<times> nest_type list) option" where
  "parse_inline_rec env link st =
     (case env of (buf, dict, bos) \<Rightarrow>
      case st of (pos, eos, output, nest) \<Rightarrow>
      if link then
        (let nest = nest @ [\<lparr>nest_pos = length output, nest_n = 0\<rparr>];
             p1 = scan_of_ch buf pos eos 1 1 C_lbracket
         in
         if pos = p1 then Some (pos, output, nest)
         else
           do {
             (p2, inner, nest) \<leftarrow> parse_inline_rec env False (p1, eos, [], nest);
             let (inner, nest) = parse_link_unwind inner nest;
                 p3 = scan_of_ch buf p2 eos 1 1 C_rbracket;
                 nest = butlast nest;
                 already = nest_exists nest 0
             in
             if p1 = p2 \<or> p2 = p3 then
               (let (r, output) = parse_text pos p1 output in Some (r, output, nest))
             else
               do {
                 (p4, attribute) \<leftarrow> parse_link_paren buf p3 eos [];
                 if \<not> already \<and> p3 < p4 then
                   (let (r, output) = parse_make_link pos p4 inner attribute output
                    in Some (r, output, nest))
                 else
                   do {
                     (p5, attribute) \<leftarrow> parse_link_bracket buf p3 eos p1 p2 attribute;
                     let (found, attribute) =
                       (if \<not> already then parse_fetch_reference_link buf dict attribute
                        else (False, attribute))
                     in
                     if \<not> already \<and> found then
                       (let (r, output) = parse_make_link pos p5 inner attribute output
                        in Some (r, output, nest))
                     else
                       do {
                         (r, output, nest) \<leftarrow> parse_inline_rec env False
                            (p1, p2, snd (parse_text pos p1 output), nest);
                         let (r, output) = parse_text p2 p5 output in Some (r, output, nest)
                       }
                   }
               }
           })
      else
        (let p1 = pos in
         if p1 < eos \<and> C_rbracket \<noteq> buf ! p1 then
           (if C_SP = buf ! p1 then
              (let (p1, output) = parse_space buf p1 eos output
               in parse_inline_rec env False (p1, eos, output, nest))
            else if C_backslash = buf ! p1 then
              (let (p1, output) = parse_escape buf p1 eos output
               in parse_inline_rec env False (p1, eos, output, nest))
            else if C_backtick = buf ! p1 then
              (let (p1, output) = parse_inlinecode buf p1 eos output
               in parse_inline_rec env False (p1, eos, output, nest))
            else if C_star = buf ! p1 \<or> C_underscore = buf ! p1 then
              (let (p1, output, nest) = parse_emphasis buf bos p1 eos output nest
               in parse_inline_rec env False (p1, eos, output, nest))
            else if C_lt = buf ! p1 then
              do {
                (p1, output) \<leftarrow> parse_angle buf p1 eos output;
                parse_inline_rec env False (p1, eos, output, nest)
              }
            else if C_lbracket = buf ! p1 then
              do {
                (p1, output, nest) \<leftarrow> parse_inline_rec env True (p1, eos, output, nest);
                parse_inline_rec env False (p1, eos, output, nest)
              }
            else if C_bang = buf ! p1 then
              do {
                (p1, output) \<leftarrow> parse_image buf dict p1 eos output;
                parse_inline_rec env False (p1, eos, output, nest)
              }
            else
              (let ccls = [C_SP, C_backslash, C_backtick, C_star, C_underscore, C_lt, C_bang,
                           C_lbracket, C_rbracket];
                   p2 = find_first_of buf p1 eos ccls;
                   (p1, output) = parse_text p1 p2 output
               in parse_inline_rec env False (p1, eos, output, nest)))
         else Some (p1, output, nest)))"

declare parse_inline_rec.simps [code]

definition parse_inline_loop ::
  "wstring \<Rightarrow> refdict_type \<Rightarrow> nat \<Rightarrow> nat \<Rightarrow> nat \<Rightarrow> token_type list \<Rightarrow> nest_type list
     \<Rightarrow> (nat \<times> token_type list \<times> nest_type list) option" where
  "parse_inline_loop buf dict bos pos eos output nest =
     parse_inline_rec (buf, dict, bos) False (pos, eos, output, nest)"


text \<open>The loop of \<open>parse_inline\<close> over \<open>pos\<close>, and the loop that empties the nest.\<close>

partial_function (option) parse_inline_outer ::
  "wstring \<times> refdict_type \<Rightarrow> nat \<Rightarrow> token_type list \<times> nest_type list
     \<Rightarrow> (token_type list \<times> nest_type list) option" where
  "parse_inline_outer env pos st =
     (case env of (buf, dict) \<Rightarrow>
      case st of (output, nest) \<Rightarrow>
      if pos < length buf then
        do {
          (p, output, nest) \<leftarrow> parse_inline_loop buf dict 0 pos (length buf) output nest;
          if pos = p \<and> C_rbracket = buf ! p then
            (let (p, output) = parse_text p (p + 1) output
             in parse_inline_outer env p (output, nest))
          else parse_inline_outer env p (output, nest)
        }
      else Some (output, nest))"

declare parse_inline_outer.simps [code]

function parse_inline_unwind ::
  "token_type list \<Rightarrow> nest_type list \<Rightarrow> token_type list \<times> nest_type list" where
  "parse_inline_unwind output nest =
     (if nest \<noteq> [] then
        parse_inline_unwind
          (output[nest_pos (last nest) := (output ! nest_pos (last nest))\<lparr>kind := TEXT\<rparr>])
          (butlast nest)
      else (output, nest))"
  by pat_completeness auto
termination
  by (relation "measure (\<lambda>(out, nest). length nest)") auto

declare parse_inline_unwind.simps [simp del]

text \<open>
  \<open>parse_inline\<close> appends to the \<open>output\<close> it is given. The second component of the result
  is the nest when it returns; the source drops it.
\<close>

definition parse_inline ::
  "wstring \<Rightarrow> refdict_type \<Rightarrow> token_type list
     \<Rightarrow> (token_type list \<times> nest_type list) option" where
  "parse_inline input dict output =
     do {
       (output, nest) \<leftarrow> parse_inline_outer (input, dict) 0 (output, []);
       Some (parse_inline_unwind output nest)
     }"


section \<open>The output writer\<close>

text \<open>
  The state table of \<open>check_html5entity\<close>. The function returns whether an entity starts at
  \<open>s0\<close>, and \<open>s0\<close> moved behind it when one does.
\<close>

definition tbl :: "nat list list" where
  "tbl = [[0, 0, 0, 0, 0, 0],
          [0, 0, 2, 2, 3, 0],
          [0, 2, 2, 2, 0, 9],
          [0, 4, 0, 0, 0, 0],
          [0, 4, 0, 0, 0, 9],
          [0, 6, 6, 0, 0, 0],
          [0, 6, 6, 0, 0, 9]]"

definition entity_ccls :: "wchar \<Rightarrow> nat" where
  "entity_ccls c =
     (if C_0 \<le> c \<and> c \<le> C_9 then 1
      else if C_A \<le> c \<and> c \<le> C_F then 2
      else if C_a \<le> c \<and> c \<le> C_f then 2
      else if C_G \<le> c \<and> c \<le> C_Z then 3
      else if C_g \<le> c \<and> c \<le> C_z then 3
      else if C_hash = c then 4
      else if C_semi = c then 5
      else 0)"

function check_html5entity_loop :: "wstring \<Rightarrow> nat \<Rightarrow> nat \<Rightarrow> nat \<Rightarrow> nat \<Rightarrow> bool \<times> nat" where
  "check_html5entity_loop buf s0 e s state =
     (if s < e then
        (let ccls = entity_ccls (buf ! s);
             state = (if 3 = state \<and> C_x = buf ! s then 5 else tbl ! state ! ccls)
         in
         if 0 = state then (False, s0)
         else if 9 = state then (True, s + 1)
         else check_html5entity_loop buf s0 e (s + 1) state)
      else (False, s0))"
  by pat_completeness auto
termination
  by (relation "measure (\<lambda>(buf, s0, e, s, state). e - s)") auto

declare check_html5entity_loop.simps [simp del]

definition check_html5entity :: "wstring \<Rightarrow> nat \<Rightarrow> nat \<Rightarrow> bool \<times> nat" where
  "check_html5entity buf s0 e =
     (if \<not> (s0 < e \<and> C_amp = buf ! s0) then (False, s0)
      else check_html5entity_loop buf s0 e (s0 + 1) 1)"

lemma check_html5entity_loop_gt:
  "check_html5entity_loop buf s0 e s state = (True, s1) \<Longrightarrow> s < s1"
proof (induction buf s0 e s state rule: check_html5entity_loop.induct)
  case (1 buf s0 e s state)
  let ?st = "if 3 = state \<and> C_x = buf ! s then 5 else tbl ! state ! entity_ccls (buf ! s)"
  from "1.prems" have lt: "s < e"
    by (subst (asm) check_html5entity_loop.simps) (simp split: if_splits)
  then have unfold: "check_html5entity_loop buf s0 e s state =
      (if 0 = ?st then (False, s0) else if 9 = ?st then (True, s + 1)
       else check_html5entity_loop buf s0 e (s + 1) ?st)"
    by (subst check_html5entity_loop.simps) (simp only: Let_def if_True)
  show ?case
  proof (cases "0 = ?st \<or> 9 = ?st")
    case True
    with "1.prems" show ?thesis
      unfolding unfold by (auto split: if_splits)
  next
    case False
    with "1.prems" have "check_html5entity_loop buf s0 e (s + 1) ?st = (True, s1)"
      unfolding unfold by (simp only: if_False de_Morgan_disj split: if_splits)
    with "1.IH" [OF lt refl refl] False show ?thesis
      by simp
  qed
qed

lemma check_html5entity_gt: "check_html5entity buf s0 e = (True, s1) \<Longrightarrow> s0 < s1"
  by (auto simp: check_html5entity_def split: if_splits dest!: check_html5entity_loop_gt)

text \<open>
  \<open>encode_utf8\<close> and \<open>decode_utf8\<close> convert with the \<^verbatim>\<open>codecvt\<close> facet of the locale
  \<^verbatim>\<open>C.UTF-8\<close>, which is not part of the source. The encoder of the C library writes every
  value of a \<^verbatim>\<open>wchar_t\<close> that is no surrogate, also above \<^verbatim>\<open>0x10FFFF\<close>, in the original
  scheme of one to six bytes (\<^verbatim>\<open>0x110000\<close> is \<^verbatim>\<open>F4 90 80 80\<close>), and stops at a surrogate;
  the decoder stops at the first byte sequence that is no UTF-8 of one to four bytes.
\<close>

fun encode_utf8 :: "wstring \<Rightarrow> nat list" where
  "encode_utf8 [] = []"
| "encode_utf8 (c # cs) =
     (if c < 0x80 then c # encode_utf8 cs
      else if c < 0x800 then (0xC0 + c div 0x40) # (0x80 + c mod 0x40) # encode_utf8 cs
      else if 0xD800 \<le> c \<and> c < 0xE000 then []
      else if c < 0x10000 then
        (0xE0 + c div 0x1000) # (0x80 + c div 0x40 mod 0x40) # (0x80 + c mod 0x40)
          # encode_utf8 cs
      else if c < 0x200000 then
        (0xF0 + c div 0x40000) # (0x80 + c div 0x1000 mod 0x40) # (0x80 + c div 0x40 mod 0x40)
          # (0x80 + c mod 0x40) # encode_utf8 cs
      else if c < 0x4000000 then
        (0xF8 + c div 0x1000000) # (0x80 + c div 0x40000 mod 0x40)
          # (0x80 + c div 0x1000 mod 0x40) # (0x80 + c div 0x40 mod 0x40)
          # (0x80 + c mod 0x40) # encode_utf8 cs
      else if c < 0x80000000 then
        (0xFC + c div 0x40000000) # (0x80 + c div 0x1000000 mod 0x40)
          # (0x80 + c div 0x40000 mod 0x40) # (0x80 + c div 0x1000 mod 0x40)
          # (0x80 + c div 0x40 mod 0x40) # (0x80 + c mod 0x40) # encode_utf8 cs
      else [])"

definition utf8_cont :: "nat \<Rightarrow> bool" where
  "utf8_cont b \<longleftrightarrow> 0x80 \<le> b \<and> b < 0xC0"

fun decode_utf8 :: "nat list \<Rightarrow> wstring" where
  "decode_utf8 [] = []"
| "decode_utf8 (b # bs) =
     (if b < 0x80 then b # decode_utf8 bs
      else if 0xC2 \<le> b \<and> b < 0xE0 then
        (case bs of
           b1 # r \<Rightarrow>
             if utf8_cont b1 then ((b - 0xC0) * 0x40 + (b1 - 0x80)) # decode_utf8 r else []
         | _ \<Rightarrow> [])
      else if 0xE0 \<le> b \<and> b < 0xF0 then
        (case bs of
           b1 # b2 # r \<Rightarrow>
             (let c = (b - 0xE0) * 0x1000 + (b1 - 0x80) * 0x40 + (b2 - 0x80) in
              if utf8_cont b1 \<and> utf8_cont b2 \<and> 0x800 \<le> c \<and> \<not> (0xD800 \<le> c \<and> c < 0xE000)
              then c # decode_utf8 r else [])
         | _ \<Rightarrow> [])
      else if 0xF0 \<le> b \<and> b < 0xF5 then
        (case bs of
           b1 # b2 # b3 # r \<Rightarrow>
             (let c = (b - 0xF0) * 0x40000 + (b1 - 0x80) * 0x1000 + (b2 - 0x80) * 0x40
                        + (b3 - 0x80) in
              if utf8_cont b1 \<and> utf8_cont b2 \<and> utf8_cont b3 \<and> 0x10000 \<le> c \<and> c < 0x110000
              then c # decode_utf8 r else [])
         | _ \<Rightarrow> [])
      else [])"

function print_with_escape_html :: "wstring \<Rightarrow> nat \<Rightarrow> nat \<Rightarrow> wstring \<Rightarrow> wstring" where
  "print_with_escape_html buf s e output =
     (if s < e then
        (if C_amp = buf ! s then
           (let (found, s1) = check_html5entity buf s e in
            if found then print_with_escape_html buf (s1 - 1 + 1) e (output @ slice buf s s1)
            else print_with_escape_html buf (s + 1) e (output @ wstr ''&amp;''))
         else if buf ! s = C_lt then print_with_escape_html buf (s + 1) e (output @ wstr ''&lt;'')
         else if buf ! s = C_gt then print_with_escape_html buf (s + 1) e (output @ wstr ''&gt;'')
         else if buf ! s = C_dquote then
           print_with_escape_html buf (s + 1) e (output @ wstr ''&quot;'')
         else if buf ! s = C_squote then
           print_with_escape_html buf (s + 1) e (output @ wstr ''&#39;'')
         else print_with_escape_html buf (s + 1) e (output @ [buf ! s]))
      else output)"
  by pat_completeness auto
termination
proof (relation "measure (\<lambda>(buf, s, e, out). e - s)", goal_cases)
  case (2 buf s e out x found s1)
  then show ?case
    using check_html5entity_gt [of buf s e s1] by auto
qed auto

declare print_with_escape_html.simps [simp del]

function print_with_escape_htmlall :: "wstring \<Rightarrow> nat \<Rightarrow> nat \<Rightarrow> wstring \<Rightarrow> wstring" where
  "print_with_escape_htmlall buf s e output =
     (if s < e then
        (if buf ! s = C_amp then
           print_with_escape_htmlall buf (s + 1) e (output @ wstr ''&amp;'')
         else if buf ! s = C_lt then
           print_with_escape_htmlall buf (s + 1) e (output @ wstr ''&lt;'')
         else if buf ! s = C_gt then
           print_with_escape_htmlall buf (s + 1) e (output @ wstr ''&gt;'')
         else if buf ! s = C_dquote then
           print_with_escape_htmlall buf (s + 1) e (output @ wstr ''&quot;'')
         else if buf ! s = C_squote then
           print_with_escape_htmlall buf (s + 1) e (output @ wstr ''&#39;'')
         else print_with_escape_htmlall buf (s + 1) e (output @ [buf ! s]))
      else output)"
  by pat_completeness auto
termination
  by (relation "measure (\<lambda>(buf, s, e, out). e - s)") auto

declare print_with_escape_htmlall.simps [simp del]

definition hexdigit :: "nat \<Rightarrow> wchar" where
  "hexdigit d = (if d < 10 then d + C_0 else d + C_A - 10)"

definition uri_safe :: wstring where
  "uri_safe = wstr ''-_.,:;*+=()/~?#''"

definition uri_amp :: wstring where
  "uri_amp = wstr ''&amp;''"

function print_with_escape_uri_loop :: "nat list \<Rightarrow> nat \<Rightarrow> nat list \<Rightarrow> nat list" where
  "print_with_escape_uri_loop octets s t =
     (if s \<noteq> length octets \<and> s < length octets then
        (if ismdalnum (octets ! s) \<or> octets ! s \<in> set uri_safe then
           print_with_escape_uri_loop octets (s + 1) (t @ [octets ! s])
         else if s + 2 < length octets \<and> octets ! s = C_percent
             \<and> ismdxdigit (octets ! (s + 1)) \<and> ismdxdigit (octets ! (s + 2)) then
           print_with_escape_uri_loop octets (s + 1) (t @ [octets ! s])
         else if s + 4 < length octets \<and> take (length uri_amp) (drop s octets) = uri_amp then
           print_with_escape_uri_loop octets (s + 1) (t @ [octets ! s])
         else if octets ! s = C_amp then
           print_with_escape_uri_loop octets (s + 1) (t @ uri_amp)
         else
           print_with_escape_uri_loop octets (s + 1)
             (t @ [C_percent, hexdigit ((octets ! s div 16) mod 16), hexdigit (octets ! s mod 16)]))
      else t)"
  by pat_completeness auto
termination
  by (relation "measure (\<lambda>(octets, s, t). length octets - s)") auto

declare print_with_escape_uri_loop.simps [simp del]

definition print_with_escape_uri :: "wstring \<Rightarrow> nat \<Rightarrow> nat \<Rightarrow> wstring \<Rightarrow> wstring" where
  "print_with_escape_uri buf s e output =
     (let w = slice buf s e;
          octets = encode_utf8 w;
          t = print_with_escape_uri_loop octets 0 []
      in output @ decode_utf8 t)"

text \<open>The string a token's iterators point into.\<close>

definition token_buf :: "wstring \<Rightarrow> token_type \<Rightarrow> wstring" where
  "token_buf buf t = (case base t of None \<Rightarrow> buf | Some w \<Rightarrow> w)"

definition token_unescaped :: "wstring \<Rightarrow> token_type \<Rightarrow> wstring" where
  "token_unescaped buf t = unescape_backslash (token_buf buf t) (cbegin t) (cend t) []"

text \<open>
  \<open>print_innerlink\<close> reads the tokens after \<open>SABEGIN\<close> or \<open>IMGBEGIN\<close> without a test for the
  end of the sequence: the parser puts them there
  (\<open>parse_make_link\<close>, \<open>parse_make_image\<close>, \<open>parse_angle\<close>).
\<close>

definition print_innerlink ::
  "wstring \<Rightarrow> token_type list \<Rightarrow> nat \<Rightarrow> wstring \<Rightarrow> nat \<times> wstring" where
  "print_innerlink buf input p output =
     (let skind = kind (input ! p);
          output = output @ kindname skind;
          p = p + 1;
          (p, output, titletok) =
            (if URI = kind (input ! p) then
               (let u = token_unescaped buf (input ! p);
                    output = print_with_escape_uri u 0 (length u) output;
                    p = p + 1
                in if TITLE = kind (input ! p) then (p + 1, output, Some (input ! p))
                   else (p, output, None))
             else (p, output, None));
          (p, output) =
            (if IMGBEGIN = skind then
               (let output = output @ kindname (kind (input ! p));
                    alt = token_unescaped buf (input ! p)
                in (p + 1, print_with_escape_html alt 0 (length alt) output))
             else (p, output));
          output =
            (case titletok of
               None \<Rightarrow> output
             | Some t \<Rightarrow>
                 if cbegin t < cend t then
                   (let output = output @ kindname TITLE;
                        ttl = token_unescaped buf t
                    in print_with_escape_html ttl 0 (length ttl) output)
                 else output)
      in (p, output @ kindname (kind (input ! p))))"

function print_inline_text ::
  "wstring \<Rightarrow> token_type list \<Rightarrow> nat \<Rightarrow> wstring \<Rightarrow> nat \<times> wstring" where
  "print_inline_text buf input p src =
     (if p < length input \<and> TEXT = kind (input ! p) then
        print_inline_text buf input (p + 1)
          (if cbegin (input ! p) < cend (input ! p) then
             src @ slice (token_buf buf (input ! p)) (cbegin (input ! p)) (cend (input ! p))
           else src)
      else (p, src))"
  by pat_completeness auto
termination
  by (relation "measure (\<lambda>(buf, input, p, src). length input - p)") auto

declare print_inline_text.simps [simp del]

lemma print_inline_text_ge: "p \<le> fst (print_inline_text buf input p src)"
  by (induction buf input p src rule: print_inline_text.induct)
     (subst print_inline_text.simps, auto)

lemma print_inline_text_gt:
  "p < length input \<Longrightarrow> TEXT = kind (input ! p) \<Longrightarrow> p < fst (print_inline_text buf input p src)"
  using print_inline_text_ge [of "p + 1" buf input]
  by (subst print_inline_text.simps) (auto intro: Suc_le_lessD)

lemma print_innerlink_gt: "p < fst (print_innerlink buf input p out)"
  by (simp add: print_innerlink_def Let_def case_prod_beta)

function print_inline_loop ::
  "wstring \<Rightarrow> token_type list \<Rightarrow> nat \<Rightarrow> wstring \<Rightarrow> wstring" where
  "print_inline_loop buf input p output =
     (if p < length input then
        (if BREAK \<le> kind (input ! p) then
           print_inline_loop buf input (p + 1) (output @ kindname (kind (input ! p)))
         else if CODE = kind (input ! p) then
           print_inline_loop buf input (p + 1)
             (print_with_escape_htmlall (token_buf buf (input ! p)) (cbegin (input ! p))
                (cend (input ! p)) output)
         else if HTML = kind (input ! p) then
           print_inline_loop buf input (p + 1)
             (output @ slice (token_buf buf (input ! p)) (cbegin (input ! p)) (cend (input ! p)))
         else if SABEGIN = kind (input ! p) \<or> IMGBEGIN = kind (input ! p) then
           (let r = print_innerlink buf input p output
            in print_inline_loop buf input (fst r + 1) (snd r))
         else if TEXT = kind (input ! p) then
           (let r = print_inline_text buf input p [];
                text = unescape_backslash (snd r) 0 (length (snd r)) []
            in print_inline_loop buf input (fst r - 1 + 1)
                 (print_with_escape_html text 0 (length text) output))
         else print_inline_loop buf input (p + 1) output)
      else output)"
  by pat_completeness auto
termination
proof (relation "measure (\<lambda>(buf, input, p, out). length input - p)", goal_cases)
  case (5 buf input p out r)
  then show ?case
    using print_innerlink_gt [of p buf input out] by auto
next
  case (6 buf input p out r unescaped)
  then show ?case
    using print_inline_text_gt [of p input buf "[]"] by auto
qed auto

declare print_inline_loop.simps [simp del]

definition print_inline :: "wstring \<Rightarrow> token_type list \<Rightarrow> wstring \<Rightarrow> wstring" where
  "print_inline buf input output = print_inline_loop buf input 0 output"


text \<open>
  \<open>print_block\<close>: the three inner loops over \<open>dot\<close>, the body of the outer loop
  (\<open>print_block_step\<close>, which gives the new \<open>dot\<close> and the output) and the outer loop.
  \<open>parse_inline\<close> need not return, so neither need \<open>print_block\<close>.
\<close>

function print_block_blank :: "token_type list \<Rightarrow> nat \<Rightarrow> nat" where
  "print_block_blank input dot =
     (if dot < length input \<and> BLANK = kind (input ! dot) then print_block_blank input (dot + 1)
      else dot)"
  by pat_completeness auto
termination
  by (relation "measure (\<lambda>(input, dot). length input - dot)") auto

declare print_block_blank.simps [simp del]

function print_block_code ::
  "wstring \<Rightarrow> token_type list \<Rightarrow> nat \<Rightarrow> wstring \<Rightarrow> nat \<times> wstring" where
  "print_block_code buf input dot output =
     (if dot < length input \<and> CODE = kind (input ! dot) then
        (if dot + 1 < length input \<and> CODE \<noteq> kind (input ! (dot + 1))
            \<and> int (cbegin (input ! dot)) < int (cend (input ! dot)) - 1
            \<and> C_LF = buf ! (cend (input ! dot) - 1) then
           print_block_code buf input (dot + 1)
             (print_with_escape_htmlall buf (cbegin (input ! dot)) (cend (input ! dot) - 1) output)
         else
           print_block_code buf input (dot + 1)
             (print_with_escape_htmlall buf (cbegin (input ! dot)) (cend (input ! dot)) output))
      else (dot, output))"
  by pat_completeness auto
termination
  by (relation "measure (\<lambda>(buf, input, dot, out). length input - dot)") auto

declare print_block_code.simps [simp del]

function print_block_inline ::
  "wstring \<Rightarrow> token_type list \<Rightarrow> nat \<Rightarrow> wstring \<Rightarrow> nat \<times> wstring" where
  "print_block_inline buf input dot src =
     (if dot < length input \<and> INLINE = kind (input ! dot) then
        print_block_inline buf input (dot + 1)
          (src @ slice buf (cbegin (input ! dot)) (cend (input ! dot)))
      else (dot, src))"
  by pat_completeness auto
termination
  by (relation "measure (\<lambda>(buf, input, dot, src). length input - dot)") auto

declare print_block_inline.simps [simp del]

definition print_block_step ::
  "wstring \<Rightarrow> refdict_type \<Rightarrow> token_type list \<Rightarrow> nat \<Rightarrow> wstring \<Rightarrow> (nat \<times> wstring) option"
  where
  "print_block_step buf dict input dot output =
     (if BLANK = kind (input ! dot) then
        (let dot = print_block_blank input dot
         in Some (dot, if dot < length input then output @ [C_LF] else output))
      else if HRULE \<le> kind (input ! dot) then
        (let output =
           (if (SOLIST = kind (input ! dot) \<or> SULIST = kind (input ! dot))
               \<and> int dot - 1 > 0 \<and> kind (input ! (dot - 1)) = INLINE
            then output @ [C_LF] else output)
         in Some (dot + 1, output @ kindname (kind (input ! dot))))
      else if HTML = kind (input ! dot) then
        Some (dot + 1, output @ slice buf (cbegin (input ! dot)) (cend (input ! dot)))
      else if CODE = kind (input ! dot) then Some (print_block_code buf input dot output)
      else if INLINE = kind (input ! dot) then
        (let (dot, src) = print_block_inline buf input dot [];
             src = (if length src > 0 \<and> C_LF = last src then butlast src else src)
         in
         do {
           (inline_input, nest) \<leftarrow> parse_inline src dict [];
           Some (dot, print_inline src inline_input output)
         })
      else Some (dot, output))"

lemma print_block_blank_ge: "dot \<le> print_block_blank input dot"
  by (induction input dot rule: print_block_blank.induct) (subst print_block_blank.simps, auto)

lemma print_block_code_ge: "dot \<le> fst (print_block_code buf input dot out)"
  by (induction buf input dot out rule: print_block_code.induct)
     (subst print_block_code.simps, auto)

lemma print_block_inline_ge: "dot \<le> fst (print_block_inline buf input dot src)"
  by (induction buf input dot src rule: print_block_inline.induct)
     (subst print_block_inline.simps, auto)

lemma print_block_step_ge:
  "print_block_step buf dict input dot out = Some r \<Longrightarrow> dot \<le> fst r"
  using print_block_blank_ge [of dot input] print_block_code_ge [of dot buf input out]
    print_block_inline_ge [of dot buf input "[]"]
  by (auto simp: print_block_step_def Let_def split: if_splits prod.splits bind_splits)

function print_block_loop ::
  "wstring \<Rightarrow> refdict_type \<Rightarrow> token_type list \<Rightarrow> nat \<Rightarrow> wstring \<Rightarrow> wstring option" where
  "print_block_loop buf dict input dot output =
     (if dot < length input then
        (case print_block_step buf dict input dot output of
           None \<Rightarrow> None
         | Some r \<Rightarrow>
             print_block_loop buf dict input (if fst r \<noteq> dot then fst r else fst r + 1) (snd r))
      else Some output)"
  by pat_completeness auto
termination
proof (relation "measure (\<lambda>(buf, dict, input, dot, out). length input - dot)", goal_cases)
  case (2 buf dict input dot out r)
  then show ?case
    using print_block_step_ge [of buf dict input dot out r] by auto
qed simp

declare print_block_loop.simps [simp del]

definition print_block ::
  "wstring \<Rightarrow> refdict_type \<Rightarrow> token_type list \<Rightarrow> wstring \<Rightarrow> wstring option" where
  "print_block buf dict input output =
     print_block_loop buf dict input (print_block_blank input 0) output"

section \<open>The translator\<close>

text \<open>
  \<open>markdown\<close> gives the text written to the stream, or \<open>None\<close> when the run does not end.
\<close>

definition markdown :: "token_type \<Rightarrow> wstring \<Rightarrow> wstring option" where
  "markdown pte input =
     do {
       (pass1, dict) \<leftarrow> split_lines input;
       let pass2 = parse_block input pte pass1 [] in
       print_block input dict pass2 []
     }"


section \<open>End-to-end scenarios\<close>

text \<open>
  C3. The translation of \<^verbatim>\<open>***bold italic***\<close> followed by a newline is
  \<^verbatim>\<open><p><strong><em>bold italic</em></strong></p>\<close> followed by a newline, whatever the
  reads past the end of the token sequence return.
\<close>

theorem markdown_bold_italic:
  "markdown pte (wstr ''***bold italic***\<newline>'')
     = Some (wstr ''<p><strong><em>bold italic</em></strong></p>\<newline>'')"
  by code_simp

section \<open>Unmatched start markers\<close>

text \<open>
  C2. A run of three that is never closed pushes two frames that both point at the
  \<open>SSTRONG\<close> token. When \<open>parse_inline\<close> returns, the nest is empty and that token is
  \<open>TEXT\<close>, but the zero-width \<open>SEM\<close> token after it is still a start marker, with no \<open>EEM\<close>
  in the sequence: for the input \<^verbatim>\<open>***abc\<close> the tokens are \<open>TEXT\<close>, \<open>SEM\<close>, \<open>TEXT\<close>.
\<close>

theorem parse_inline_unmatched_three:
  "parse_inline (wstr ''***abc'') Map.empty []
     = Some ([tok TEXT 0 3, tok SEM 0 0, tok TEXT 3 6], [])"
  by code_simp


section \<open>An exclamation mark that starts no image\<close>

text \<open>
  \<open>parse_image\<close> returns the position it was given, and emits nothing, when the exclamation
  mark is not followed by a bracket. The loop of \<open>parse_inline_loop\<close> continues from the
  position returned, which is where it was: it does not return.
\<close>

lemma parse_image_not_bracket:
  assumes "pos < eos" and "buf ! pos = C_bang" and "\<not> (pos + 1 < eos \<and> buf ! (pos + 1) = C_lbracket)"
  shows "parse_image buf dict pos eos out = Some (pos, out)"
  using assms by (auto simp: parse_image_def scan_of_ch_one)

lemma parse_inline_loop_bang_diverges:
  assumes "pos < eos" and "buf ! pos = C_bang"
    and "\<not> (pos + 1 < eos \<and> buf ! (pos + 1) = C_lbracket)"
  shows "parse_inline_loop buf dict bos pos eos out nest = None"
proof -
  have "\<not> (env = (buf, dict, bos) \<and> link = False \<and> st = (pos, eos, out, nest))"
    if "parse_inline_rec env link st = Some y" for env link st y
    using that
  proof (rule parse_inline_rec.raw_induct [rotated 1], goal_cases)
    case (1 rec env link st y)
    show ?case
    proof
      assume eq: "env = (buf, dict, bos) \<and> link = False \<and> st = (pos, eos, out, nest)"
      with 1(2) assms have "rec env link st = Some y"
        by (simp add: parse_image_not_bracket)
      from 1(1) [OF this] eq show False by simp
    qed
  qed
  from this [of "(buf, dict, bos)" False "(pos, eos, out, nest)"] show ?thesis
    unfolding parse_inline_loop_def
    by (cases "parse_inline_rec (buf, dict, bos) False (pos, eos, out, nest)") auto
qed

lemma split_lines_Hi:
  "map_option fst (split_lines (wstr ''Hi!\<newline>'')) = Some [tok LINE 0 4]"
  by code_simp

lemma parse_block_Hi:
  "parse_block (wstr ''Hi!\<newline>'') pte [tok LINE 0 4] []
     = [tok SPARAGRAPH 0 0, tok INLINE 0 4, tok EPARAGRAPH (cbegin pte) (cbegin pte)]"
  by code_simp

lemma parse_inline_Hi: "parse_inline [72, 105, 33] dict [] = None"
proof -
  let ?buf = "[72, 105, 33] :: wstring"
  have "parse_inline_loop ?buf dict 0 2 3 [tok TEXT 0 2] [] = None"
    by (rule parse_inline_loop_bang_diverges) simp_all
  then have "parse_inline_loop ?buf dict 0 0 3 [] [] = None"
    unfolding parse_inline_loop_def
    by (subst parse_inline_rec.simps)
       (simp add: find_first_of.simps parse_text_def tok_def numeral_2_eq_2)
  then have "parse_inline_outer (?buf, dict) 0 ([], []) = None"
    by (subst parse_inline_outer.simps) (simp add: numeral_3_eq_3)
  then show ?thesis
    by (simp add: parse_inline_def)
qed

text \<open>
  C9. The translator does not return on the input \<^verbatim>\<open>Hi!\<close> followed by a newline: the
  paragraph's inline run is \<^verbatim>\<open>Hi!\<close>, and the loop of \<open>parse_inline_loop\<close> stays at the
  exclamation mark for ever.
\<close>

theorem markdown_bang_diverges: "markdown pte (wstr ''Hi!\<newline>'') = None"
proof -
  let ?buf = "[72, 105, 33, 10] :: wstring"
  let ?pass2 = "[tok SPARAGRAPH 0 0, tok INLINE 0 4, tok EPARAGRAPH (cbegin pte) (cbegin pte)]"
  have buf: "wstr ''Hi!\<newline>'' = ?buf"
    by (simp add: wstr_def)
  obtain dict where split: "split_lines ?buf = Some ([tok LINE 0 4], dict)"
    using split_lines_Hi unfolding buf by fastforce
  have inl: "print_block_inline ?buf ?pass2 (Suc 0) [] = (2, ?buf)"
    by (simp add: print_block_inline.simps slice_def)
  have step: "print_block_step ?buf dict ?pass2 (Suc 0) (kindname SPARAGRAPH) = None"
    by (simp add: print_block_step_def inl parse_inline_Hi)
  have "print_block_loop ?buf dict ?pass2 (Suc 0) (kindname SPARAGRAPH) = None"
    by (subst print_block_loop.simps) (simp add: step)
  then have "print_block_loop ?buf dict ?pass2 0 [] = None"
    by (subst print_block_loop.simps) (simp add: print_block_step_def)
  then have "print_block ?buf dict ?pass2 [] = None"
    by (simp add: print_block_def print_block_blank.simps)
  then show ?thesis
    using parse_block_Hi [of pte] by (simp add: markdown_def split buf)
qed



section \<open>Scanners as list functions\<close>

text \<open>
  What the scanners compute, on the characters between their bounds: the forward scans take
  a longest prefix, the reverse scans drop a longest suffix.
\<close>

lemma slice_Nil: "e \<le> s \<Longrightarrow> slice buf s e = []"
  by (simp add: slice_def)

lemma slice_Cons: "s < e \<Longrightarrow> e \<le> length buf \<Longrightarrow> slice buf s e = buf ! s # slice buf (s + 1) e"
proof -
  assume a: "s < e" "e \<le> length buf"
  then have "drop s buf = buf ! s # drop (s + 1) buf"
    by (simp add: Cons_nth_drop_Suc)
  moreover from a obtain k where "e - s = Suc k" "e - (s + 1) = k"
    by (metis Suc_diff_Suc Suc_eq_plus1 diff_diff_left)
  ultimately show ?thesis
    by (simp add: slice_def)
qed

lemma slice_snoc:
  "s < e \<Longrightarrow> e \<le> length buf \<Longrightarrow> slice buf s e = slice buf s (e - 1) @ [buf ! (e - 1)]"
proof -
  assume a: "s < e" "e \<le> length buf"
  then obtain k where k: "e - s = Suc k" "e - 1 - s = k"
    by (metis Suc_diff_Suc diff_Suc_eq_diff_pred diff_commute)
  from a k have "k < length (drop s buf)" by simp
  then have "take (Suc k) (drop s buf) = take k (drop s buf) @ [drop s buf ! k]"
    by (rule take_Suc_conv_app_nth)
  moreover from a k have "s + k = e - 1"
    by linarith
  then have "drop s buf ! k = buf ! (e - 1)"
    using a by simp
  ultimately show ?thesis
    using k by (simp add: slice_def)
qed

lemma length_slice: "e \<le> length buf \<Longrightarrow> length (slice buf s e) = e - s"
  by (simp add: slice_def)

lemma slice_drop: "slice buf (s + k) e = drop k (slice buf s e)"
  by (simp add: slice_def drop_take add.commute)

lemma slice_take: "q \<le> e \<Longrightarrow> slice buf s q = take (q - s) (slice buf s e)"
  by (simp add: slice_def min_def)

lemma scan_of_loop_eq:
  assumes "eos \<le> length buf" and "n2 < 0 \<or> (n1 \<le> n2 \<and> i \<le> n2)"
  shows "scan_of_loop buf pos eos n1 n2 P i p =
     (let w = slice buf p eos;
          k = length (takeWhile P (if n2 < 0 then w else take (nat (n2 - i)) w))
      in if i + int k < n1 then pos else p + k)"
  using assms
proof (induction buf pos eos n1 n2 P i p rule: scan_of_loop.induct)
  case (1 buf pos eos n1 n2 P i p)
  show ?case
  proof (cases "n2 < 0 \<or> i < n2")
    case False
    with "1.prems" show ?thesis
      by (subst scan_of_loop.simps) (simp add: Let_def)
  next
    case run: True
    show ?thesis
    proof (cases "p < eos \<and> P (buf ! p)")
      case True
      then have sl: "slice buf p eos = buf ! p # slice buf (p + 1) eos"
        using "1.prems"(1) by (simp add: slice_Cons)
      have tk: "n2 \<ge> 0 \<Longrightarrow> nat (n2 - i) = Suc (nat (n2 - (i + 1)))"
        using run by auto
      have "n2 < 0 \<or> (n1 \<le> n2 \<and> i + 1 \<le> n2)"
        using run "1.prems"(2) by auto
      from "1.IH" [OF run True "1.prems"(1) this] True run show ?thesis
        by (subst scan_of_loop.simps) (auto simp: Let_def sl tk)
    next
      case False
      then have "takeWhile P (slice buf p eos) = []"
        using "1.prems"(1) by (cases "p < eos") (simp_all add: slice_Cons slice_Nil)
      moreover have "takeWhile P (take m (slice buf p eos)) = []" for m
        using False "1.prems"(1)
        by (cases "p < eos"; cases m) (simp_all add: slice_Cons slice_Nil)
      ultimately show ?thesis
        using False run by (subst scan_of_loop.simps) (auto simp: Let_def)
    qed
  qed
qed

lemma scan_of_unbounded:
  "eos \<le> length buf \<Longrightarrow> scan_of buf pos eos n1 (- 1) P =
     (let k = length (takeWhile P (slice buf pos eos)) in if int k < n1 then pos else pos + k)"
  by (simp add: scan_of_def scan_of_loop_eq Let_def)

lemma scan_of_ch_unbounded:
  "eos \<le> length buf \<Longrightarrow> scan_of_ch buf pos eos n1 (- 1) c =
     (let k = length (takeWhile (\<lambda>x. c = x) (slice buf pos eos))
      in if int k < n1 then pos else pos + k)"
  by (simp add: scan_of_ch_def scan_of_loop_eq Let_def)

lemma scan_tab_not_eq:
  "eos \<le> length buf \<Longrightarrow> scan_tab_not buf pos eos =
     pos + length (takeWhile (\<lambda>x. C_SP = x) (take 3 (slice buf pos eos)))"
  by (simp add: scan_tab_not_def scan_of_ch_def scan_of_loop_eq Let_def)

lemma rscan_of_eq:
  "p \<le> length buf \<Longrightarrow>
     rscan_of buf bos p P = p - length (takeWhile P (rev (slice buf bos p)))"
proof (induction buf bos p P rule: rscan_of.induct)
  case (1 buf bos p P)
  show ?case
  proof (cases "bos < p \<and> P (buf ! (p - 1))")
    case True
    with "1.prems" have sl: "slice buf bos p = slice buf bos (p - 1) @ [buf ! (p - 1)]"
      by (simp add: slice_snoc)
    from "1.IH" [OF True] "1.prems" True show ?thesis
      by (subst rscan_of.simps) (simp add: sl)
  next
    case False
    then have "takeWhile P (rev (slice buf bos p)) = []"
      using "1.prems" by (cases "bos < p") (simp_all add: slice_snoc slice_Nil)
    with False show ?thesis
      by (subst rscan_of.simps) auto
  qed
qed

lemma rscan_of_slice:
  assumes "bos \<le> p" and "p \<le> length buf"
  shows "bos \<le> rscan_of buf bos p P \<and> rscan_of buf bos p P \<le> p
     \<and> slice buf bos (rscan_of buf bos p P) = rev (dropWhile P (rev (slice buf bos p)))"
proof -
  let ?w = "slice buf bos p"
  let ?k = "length (takeWhile P (rev ?w))"
  have q: "rscan_of buf bos p P = p - ?k"
    using assms(2) by (rule rscan_of_eq)
  have len: "length ?w = p - bos"
    using assms(2) by (rule length_slice)
  have "?k \<le> length (rev ?w)"
    by (rule length_takeWhile_le)
  then have k: "?k \<le> p - bos"
    using len by simp
  have "rev (dropWhile P (rev ?w)) = rev (drop ?k (rev ?w))"
    by (simp add: dropWhile_eq_drop)
  also have "\<dots> = take (length ?w - ?k) ?w"
    by (simp add: rev_drop)
  also have "\<dots> = take (p - ?k - bos) ?w"
    using k len by (simp add: diff_commute add.commute)
  also have "\<dots> = slice buf bos (p - ?k)"
    by (simp add: slice_take [of "p - ?k" p])
  finally show ?thesis
    using q k assms by simp
qed







section \<open>ATX headings\<close>

text \<open>
  The heading that a line is, read from the line alone: up to three spaces of indent, the
  run of marks, the spaces and tabs after them, and the content, which is what is left of
  the rest after its trailing whitespace, then its trailing marks, then its trailing spaces and
  tabs are dropped. The result is the level, the offset of the content in the line and the
  content.
\<close>

definition atx_heading :: "wstring \<Rightarrow> (nat \<times> nat \<times> wstring) option" where
  "atx_heading line =
     (let indent = length (takeWhile (\<lambda>c. C_SP = c) (take 3 line));
          marks = length (takeWhile (\<lambda>c. C_hash = c) (drop indent line));
          gap = length (takeWhile ismdspace (drop (indent + marks) line));
          body = drop (indent + marks + gap) line;
          content = rev (dropWhile ismdspace (dropWhile (\<lambda>c. C_hash = c)
                      (dropWhile ismdwhite (rev body))))
      in if marks = 0 \<or> content = [] then None
         else Some (min marks 6, indent + marks + gap, content))"

text \<open>
  C4, for the rule \<open>parse_atxheading\<close> applied to a line. The rule recognises a heading
  exactly when \<open>atx_heading\<close> of the characters of the line is not \<open>None\<close>: no space is
  needed between the marks and the content, and any number of marks is accepted. The level is
  the number of marks, at most 6, and the \<open>INLINE\<close> token covers the content without the
  trailing whitespace, marks and spaces. The statement is about one application of the rule:
  the block parser applies it only to a line that no earlier rule has taken, so a line of this
  shape inside a paragraph is no heading.
\<close>

theorem parse_atxheading_spec:
  assumes "cbegin (input ! dot) \<le> cend (input ! dot)"
    and "cend (input ! dot) \<le> length buf"
  shows "parse_atxheading buf input dot output =
     (case atx_heading (slice buf (cbegin (input ! dot)) (cend (input ! dot))) of
        None \<Rightarrow> (dot, output)
      | Some (level, off, content) \<Rightarrow>
          (dot + 1,
           output @ [tok (stag_atx ! (level - 1)) (cbegin (input ! dot) + off)
                       (cbegin (input ! dot) + off),
                     tok INLINE (cbegin (input ! dot) + off)
                       (cbegin (input ! dot) + off + length content),
                     tok (etag_atx ! (level - 1)) (cbegin (input ! dot) + off + length content)
                       (cbegin (input ! dot) + off + length content)]))
     \<and> (\<forall>level off content.
          atx_heading (slice buf (cbegin (input ! dot)) (cend (input ! dot)))
            = Some (level, off, content) \<longrightarrow>
          slice buf (cbegin (input ! dot) + off) (cbegin (input ! dot) + off + length content)
            = content)"
proof -
  let ?b = "cbegin (input ! dot)" and ?e = "cend (input ! dot)"
  let ?line = "slice buf ?b ?e"
  define indent where "indent = length (takeWhile (\<lambda>c. C_SP = c) (take 3 ?line))"
  define marks where "marks = length (takeWhile (\<lambda>c. C_hash = c) (drop indent ?line))"
  define gap where "gap = length (takeWhile ismdspace (drop (indent + marks) ?line))"
  define body where "body = drop (indent + marks + gap) ?line"
  define c1 where "c1 = rev (dropWhile ismdwhite (rev body))"
  define c2 where "c2 = rev (dropWhile (\<lambda>c. C_hash = c) (rev c1))"
  define content where "content = rev (dropWhile ismdspace (rev c2))"
  note le = assms(2)
  have len: "length ?line = ?e - ?b"
    using le by (rule length_slice)
  have p1: "scan_tab_not buf ?b ?e = ?b + indent"
    using le by (simp add: scan_tab_not_eq indent_def)
  have p2: "scan_of_ch buf (?b + indent) ?e 1 (- 1) C_hash = ?b + indent + marks"
    using le by (simp add: scan_of_ch_unbounded slice_drop marks_def Let_def)
  have p3: "scan_of buf (?b + indent + marks) ?e 0 (- 1) ismdspace = ?b + indent + marks + gap"
    using le by (simp add: scan_of_unbounded slice_drop gap_def Let_def add.assoc)
  let ?p3 = "?b + indent + marks + gap"
  have "indent \<le> length (take 3 ?line)"
    unfolding indent_def by (rule length_takeWhile_le)
  moreover have "marks \<le> length (drop indent ?line)"
    unfolding marks_def by (rule length_takeWhile_le)
  moreover have "gap \<le> length (drop (indent + marks) ?line)"
    unfolding gap_def by (rule length_takeWhile_le)
  ultimately have p3le: "?p3 \<le> ?e"
    using len assms(1) by (simp, linarith)
  have body: "slice buf ?p3 ?e = body"
    by (simp add: body_def slice_drop [symmetric] add.assoc)
  let ?p4a = "rscan_of buf ?p3 ?e ismdwhite"
  from rscan_of_slice [OF p3le le, of ismdwhite]
  have a: "?p3 \<le> ?p4a" "?p4a \<le> ?e" "slice buf ?p3 ?p4a = c1"
    by (simp_all add: body c1_def)
  let ?p4b = "rscan_of_ch buf ?p3 ?p4a C_hash"
  from a le have "?p4a \<le> length buf" by simp
  from rscan_of_slice [OF a(1) this, of "\<lambda>c. C_hash = c"]
  have b: "?p3 \<le> ?p4b" "?p4b \<le> ?p4a" "slice buf ?p3 ?p4b = c2"
    by (simp_all add: a c2_def rscan_of_ch_def)
  let ?p4 = "rscan_of buf ?p3 ?p4b ismdspace"
  from a b le have "?p4b \<le> length buf" by simp
  from rscan_of_slice [OF b(1) this, of ismdspace]
  have c: "?p3 \<le> ?p4" "?p4 \<le> ?p4b" "slice buf ?p3 ?p4 = content"
    by (simp_all add: b content_def)
  from c a b le have "length content = ?p4 - ?p3"
    using length_slice [of ?p4 buf ?p3] by simp
  with c have p4: "?p4 = ?p3 + length content"
    by simp
  have spec: "atx_heading ?line =
      (if marks = 0 \<or> content = [] then None
       else Some (min marks 6, indent + marks + gap, content))"
    by (simp add: atx_heading_def Let_def indent_def marks_def gap_def body_def content_def
        c2_def c1_def)
  have lvl: "(if int (?b + indent + marks) - int (?b + indent) > 6 then 6
              else ?b + indent + marks - (?b + indent)) = min marks 6"
    by auto
  have first: "parse_atxheading buf input dot output =
      (if marks = 0 \<or> content = [] then (dot, output)
       else (dot + 1,
           output @ [tok (stag_atx ! (min marks 6 - 1)) ?p3 ?p3,
                     tok INLINE ?p3 (?p3 + length content),
                     tok (etag_atx ! (min marks 6 - 1)) (?p3 + length content)
                       (?p3 + length content)]))"
    unfolding parse_atxheading_def p1 Let_def p2 p3 lvl
    using p4 by (auto simp: add.assoc)
  have second: "slice buf ?p3 (?p3 + length content) = content"
    using c(3) p4 by simp
  show ?thesis
    unfolding spec first using second by (auto simp: add.assoc)
qed


theorem parse_atxheading_spec_witness:
  "cbegin ([tok LINE 0 12] ! 0) \<le> cend ([tok LINE 0 12] ! 0)
   \<and> cend ([tok LINE 0 12] ! 0) \<le> length (wstr ''## Title ##\<newline>'')
   \<and> atx_heading (slice (wstr ''## Title ##\<newline>'') 0 12) = Some (2, 3, wstr ''Title'')
   \<and> parse_atxheading (wstr ''## Title ##\<newline>'') [tok LINE 0 12] 0 []
       = (1, [tok SHEADING2 3 3, tok INLINE 3 8, tok EHEADING2 8 8])
   \<and> slice (wstr ''## Title ##\<newline>'') 3 8 = wstr ''Title''"
proof -
  define buf where "buf = wstr ''## Title ##\<newline>''"
  have len: "length buf = 12"
    by (simp add: buf_def wstr_def)
  have h: "atx_heading (slice buf 0 12) = Some (2, 3, wstr ''Title'')"
    by (simp add: buf_def atx_heading_def wstr_def slice_def ismdspace_def ismdwhite_def)
  have t: "length (wstr ''Title'') = 5"
    by (simp add: wstr_def)
  show ?thesis
    using parse_atxheading_spec [of "[tok LINE 0 12]" 0 buf "[]"] h len t
    unfolding buf_def [symmetric]
    by (simp add: stag_atx_def etag_atx_def)
qed

text \<open>
  C4, as the claim states it, fails: the line \<^verbatim>\<open>#Title\<close> has no space after its mark and is
  a heading of level 1.
\<close>

theorem parse_atxheading_no_space:
  "parse_atxheading (wstr ''#Title\<newline>'') [tok LINE 0 7] 0 []
     = (1, [tok SHEADING1 1 1, tok INLINE 1 6, tok EHEADING1 6 6])
   \<and> \<not> ismdspace (wstr ''#Title\<newline>'' ! 1)"
  by code_simp


section \<open>Emphasis runs that stay text\<close>

text \<open>
  The run of characters equal to the one at \<open>pos\<close>, and the two sides of a run as the
  specification words them: the left side is white at the start of the buffer or after
  whitespace; the right side is white at the end of the buffer, before whitespace, or before
  one of \<^verbatim>\<open>.,;:\<close> that is itself followed by whitespace or the end.
\<close>

definition emphasis_run :: "wstring \<Rightarrow> nat \<Rightarrow> nat \<Rightarrow> nat" where
  "emphasis_run buf pos eos = length (takeWhile (\<lambda>c. buf ! pos = c) (slice buf pos eos))"

definition run_leftwhite :: "wstring \<Rightarrow> nat \<Rightarrow> nat \<Rightarrow> bool" where
  "run_leftwhite buf bos pos \<longleftrightarrow> pos = bos \<or> ismdwhite (buf ! (pos - 1))"

definition run_rightwhite :: "wstring \<Rightarrow> nat \<Rightarrow> nat \<Rightarrow> bool" where
  "run_rightwhite buf eos p \<longleftrightarrow>
     p = eos \<or> ismdwhite (buf ! p)
     \<or> (buf ! p \<in> {C_dot, C_comma, C_semi, C_colon} \<and> (p + 1 = eos \<or> ismdwhite (buf ! (p + 1))))"

text \<open>
  C8. A run longer than 3, or with both sides white, is emitted by \<open>parse_text\<close>: the nest
  is unchanged, and the last token of the output is a \<open>TEXT\<close> token that ends where the run
  ends (a new one, or the preceding \<open>TEXT\<close> token extended).
\<close>

theorem parse_emphasis_literal:
  assumes "pos < eos" and "eos \<le> length buf"
    and "emphasis_run buf pos eos > 3
         \<or> (run_leftwhite buf bos pos
             \<and> run_rightwhite buf eos (pos + emphasis_run buf pos eos))"
  shows "parse_emphasis buf bos pos eos output nest
           = (pos + emphasis_run buf pos eos,
              snd (parse_text pos (pos + emphasis_run buf pos eos) output), nest)
         \<and> kind (last (snd (parse_text pos (pos + emphasis_run buf pos eos) output))) = TEXT
         \<and> cend (last (snd (parse_text pos (pos + emphasis_run buf pos eos) output)))
             = pos + emphasis_run buf pos eos"
proof -
  let ?k = "emphasis_run buf pos eos"
  have "slice buf pos eos = buf ! pos # slice buf (pos + 1) eos"
    using assms(1,2) by (rule slice_Cons)
  then have pos: "0 < ?k"
    by (simp add: emphasis_run_def)
  then have p1: "scan_of_ch buf pos eos 1 (- 1) (buf ! pos) = pos + ?k"
    using assms(2) by (simp add: scan_of_ch_unbounded emphasis_run_def Let_def)
  have cond: "int (pos + ?k) - int pos > 3
      \<or> ((pos = bos \<or> ismdwhite (buf ! (pos - 1)))
         \<and> (pos + ?k = eos \<or> ismdwhite (buf ! (pos + ?k))
            \<or> ((C_dot = buf ! (pos + ?k) \<or> C_comma = buf ! (pos + ?k)
                  \<or> C_semi = buf ! (pos + ?k) \<or> C_colon = buf ! (pos + ?k))
                \<and> (pos + ?k + 1 = eos \<or> ismdwhite (buf ! (pos + ?k + 1))))))"
    using assms(3) by (auto simp: run_leftwhite_def run_rightwhite_def)
  have first: "parse_emphasis buf bos pos eos output nest
           = (pos + ?k, snd (parse_text pos (pos + ?k) output), nest)"
    unfolding parse_emphasis_def p1 Let_def
    using cond by (simp add: parse_text_def split: prod.splits)
  have "kind (last (snd (parse_text pos (pos + ?k) output))) = TEXT
      \<and> cend (last (snd (parse_text pos (pos + ?k) output))) = pos + ?k"
    using pos by (simp add: parse_text_def tok_def)
  with first show ?thesis
    by simp
qed

theorem parse_emphasis_literal_witness:
  "0 < (4::nat) \<and> 4 \<le> length (wstr ''****'')
   \<and> emphasis_run (wstr ''****'') 0 4 > 3
   \<and> parse_emphasis (wstr ''****'') 0 0 4 [] [] = (4, [tok TEXT 0 4], [])"
proof -
  define buf where "buf = wstr ''****''"
  have len: "length buf = 4"
    by (simp add: buf_def wstr_def)
  have run: "emphasis_run buf 0 4 = 4"
    by (simp add: buf_def emphasis_run_def wstr_def slice_def)
  show ?thesis
    using parse_emphasis_literal [of 0 4 buf 0 "[]" "[]"] len run
    unfolding buf_def [symmetric]
    by (simp add: parse_text_def)
qed

section \<open>Images that do not resolve\<close>









section \<open>Blank input\<close>

text \<open>
  On a text of spaces, tabs and newlines, the three block recognisers of the tokenizer do not
  apply, every line is a \<open>BLANK\<close> token that ends after the position it started from, the block
  parser copies the tokens, and the writer skips them all.
\<close>

definition blank_text :: "wstring \<Rightarrow> bool" where
  "blank_text input \<longleftrightarrow> (\<forall>c \<in> set input. ismdwhite c)"

lemma blank_text_nth: "blank_text buf \<Longrightarrow> p < length buf \<Longrightarrow> ismdwhite (buf ! p)"
  by (simp add: blank_text_def)

lemma scan_of_ch_fail:
  assumes "eos \<le> length buf" and "0 < n1" and "n2 < 0 \<or> n1 \<le> n2"
    and "pos < eos \<longrightarrow> buf ! pos \<noteq> c"
  shows "scan_of_ch buf pos eos n1 n2 c = pos"
proof -
  have "takeWhile (\<lambda>x. c = x) (slice buf pos eos) = []"
    using assms(1,4) by (cases "pos < eos") (auto simp: slice_Cons slice_Nil)
  moreover have "takeWhile (\<lambda>x. c = x) (take m (slice buf pos eos)) = []" for m
    using assms(1,4) by (cases "pos < eos"; cases m) (auto simp: slice_Cons slice_Nil)
  ultimately show ?thesis
    using assms(1,2,3) by (auto simp: scan_of_ch_def scan_of_loop_eq Let_def)
qed

lemma blank_parse_blockcode:
  assumes "blank_text buf" and "pos < length buf"
  shows "parse_blockcode buf 0 pos (length buf) out = (pos, out)"
proof -
  have "buf ! pos \<noteq> C_backtick"
    using blank_text_nth [OF assms] by (auto simp: ismdwhite_def)
  then have "scan_of_ch buf pos (length buf) 3 3 C_backtick = pos"
    by (intro scan_of_ch_fail) simp_all
  then show ?thesis
    by (simp add: parse_blockcode_def)
qed

lemma blank_parse_blockhtml:
  assumes "blank_text buf" and "pos < length buf"
  shows "parse_blockhtml buf 0 pos (length buf) out = Some (pos, out)"
proof -
  have "buf ! pos \<noteq> C_lt"
    using blank_text_nth [OF assms] by (auto simp: ismdwhite_def)
  then have "scan_htmltag buf pos (length buf) [] = Some (pos, [])"
    by (simp add: scan_htmltag_def scan_htmlcomment_def scan_of_ch_one)
  then show ?thesis
    by (simp add: parse_blockhtml_def)
qed

lemma blank_scan_tab_not:
  assumes "blank_text buf" and "eos = length buf"
  shows "scan_tab_not buf pos eos < eos \<longrightarrow> ismdwhite (buf ! scan_tab_not buf pos eos)"
  using assms by (simp add: blank_text_nth)

lemma blank_parse_refdef:
  assumes "blank_text buf" and "pos < length buf"
  shows "parse_refdef buf pos (length buf) dict = Some (pos, dict)"
proof -
  let ?eos = "length buf"
  let ?p1 = "scan_tab_not buf pos ?eos"
  have w: "?p1 < ?eos \<longrightarrow> ismdwhite (buf ! ?p1)"
    using assms(1) by (simp add: blank_text_nth)
  then have q: "scan_quoted buf ?p1 ?eos C_lbracket C_rbracket C_backslash ismdprint = Some ?p1"
    by (auto simp: scan_quoted_def ismdwhite_def)
  have "scan_refdef_id buf pos ?eos [] = Some (pos, [])"
    by (simp add: scan_refdef_id_def q Let_def)
  then show ?thesis
    by (simp add: parse_refdef_def)
qed

lemma blank_line:
  assumes "blank_text buf" and "p1 < length buf"
  defines "p2 \<equiv> scan_of buf p1 (length buf) 0 (- 1) ismdspace"
  defines "p3 \<equiv> scan_of buf p2 (length buf) 0 (- 1) ismdprint"
  defines "p4 \<equiv> scan_of_ch buf p3 (length buf) 1 1 C_LF"
  shows "p2 = p3 \<and> p1 < p4 \<and> p4 \<le> length buf"
proof -
  let ?eos = "length buf"
  let ?w = "slice buf p1 ?eos"
  let ?k = "length (takeWhile ismdspace ?w)"
  have p2: "p2 = p1 + ?k"
    by (simp add: p2_def scan_of_unbounded Let_def)
  have len: "length ?w = ?eos - p1"
    by (simp add: length_slice)
  have kle: "?k \<le> ?eos - p1"
    using length_takeWhile_le [of ismdspace ?w] len by simp
  then have p2le: "p2 \<le> ?eos"
    using p2 assms(2) by simp
  have stop: "\<not> ismdspace (buf ! p2)" if "p2 < ?eos"
  proof -
    from that p2 len have "?k < length ?w" by simp
    then have "\<not> ismdspace (?w ! ?k)"
      by (rule nth_length_takeWhile)
    moreover have "?w ! ?k = buf ! p2"
      using that p2 by (simp add: slice_def)
    ultimately show ?thesis by simp
  qed
  have lf: "buf ! p2 = C_LF" if "p2 < ?eos"
    using stop [OF that] blank_text_nth [OF assms(1) that]
    by (auto simp: ismdwhite_def ismdspace_def)
  have "takeWhile ismdprint (slice buf p2 ?eos) = []"
    using lf by (cases "p2 < ?eos") (auto simp: slice_Cons slice_Nil ismdprint_def)
  then have p3: "p3 = p2"
    by (simp add: p3_def scan_of_unbounded Let_def)
  have p4: "p4 = (if p2 < ?eos then p2 + 1 else p2)"
    using lf by (auto simp: p4_def p3 scan_of_ch_one)
  have "p1 < p4"
  proof (cases "buf ! p1 = C_LF")
    case True
    then have "?k = 0"
      using assms(2) by (simp add: slice_Cons ismdspace_def)
    with p2 p4 assms(2) show ?thesis by simp
  next
    case False
    then have "ismdspace (buf ! p1)"
      using blank_text_nth [OF assms(1,2)] by (auto simp: ismdwhite_def ismdspace_def)
    then have "0 < ?k"
      using assms(2) by (simp add: slice_Cons)
    with p2 p4 show ?thesis by simp
  qed
  with p3 p4 p2le show ?thesis
    by auto
qed

lemma blank_split_lines_loop:
  assumes "blank_text buf"
  shows "\<exists>ts. split_lines_loop buf p (out, dict) = Some (out @ ts, dict)
           \<and> (\<forall>t \<in> set ts. kind t = BLANK)"
proof (induction "length buf - p" arbitrary: p out rule: less_induct)
  case less
  show ?case
  proof (cases "p < length buf")
    case False
    then show ?thesis
      by (subst split_lines_loop.simps) simp
  next
    case True
    let ?p2 = "scan_of buf p (length buf) 0 (- 1) ismdspace"
    let ?p3 = "scan_of buf ?p2 (length buf) 0 (- 1) ismdprint"
    let ?p4 = "scan_of_ch buf ?p3 (length buf) 1 1 C_LF"
    from blank_line [OF assms True] have l: "?p2 = ?p3" "p < ?p4" "?p4 \<le> length buf"
      by blast+
    then have "length buf - ?p4 < length buf - p"
      using True by simp
    from less [OF this, of "out @ [tok BLANK ?p3 ?p4]"]
    obtain ts where ts: "split_lines_loop buf ?p4 (out @ [tok BLANK ?p3 ?p4], dict)
        = Some (out @ [tok BLANK ?p3 ?p4] @ ts, dict)" "\<forall>t \<in> set ts. kind t = BLANK"
      by auto
    have "split_lines_loop buf p (out, dict) = Some (out @ (tok BLANK ?p3 ?p4 # ts), dict)"
      using True l(1) ts(1)
      by (subst split_lines_loop.simps)
         (simp add: blank_parse_blockcode [OF assms True] blank_parse_blockhtml [OF assms True]
            blank_parse_refdef [OF assms True] Let_def)
    moreover have "\<forall>t \<in> set (tok BLANK ?p3 ?p4 # ts). kind t = BLANK"
      using ts(2) by simp
    ultimately show ?thesis
      by blast
  qed
qed

lemma blank_parse_block_loop:
  assumes "\<forall>t \<in> set input. kind t = BLANK"
  shows "parse_block_loop buf pte input dot li out = out @ drop dot input"
proof (induction "length input - dot" arbitrary: dot li out rule: less_induct)
  case less
  show ?case
  proof (cases "dot < length input")
    case False
    then show ?thesis
      by (subst parse_block_loop.simps) simp
  next
    case True
    then have k: "kind (input ! dot) = BLANK"
      using assms by simp
    have "length input - (dot + 1) < length input - dot"
      using True by simp
    from less [OF this] True k show ?thesis
      by (subst parse_block_loop.simps) (simp add: Let_def Cons_nth_drop_Suc)
  qed
qed

lemma blank_print_block_blank:
  assumes "\<forall>t \<in> set input. kind t = BLANK"
  shows "print_block_blank input dot = max dot (length input)"
proof (induction "length input - dot" arbitrary: dot rule: less_induct)
  case less
  show ?case
  proof (cases "dot < length input")
    case False
    then show ?thesis
      by (subst print_block_blank.simps) simp
  next
    case True
    then have k: "kind (input ! dot) = BLANK"
      using assms by simp
    have "length input - (dot + 1) < length input - dot"
      using True by simp
    from less [OF this] True k show ?thesis
      by (subst print_block_blank.simps) simp
  qed
qed

text \<open>
  C10. The translation of a text of spaces, tabs and newlines only, the empty text among
  them, is the empty text.
\<close>

theorem markdown_blank:
  assumes "\<forall>c \<in> set input. ismdwhite c"
  shows "markdown pte input = Some []"
proof -
  have b: "blank_text input"
    using assms by (simp add: blank_text_def)
  from blank_split_lines_loop [OF b, of 0 "[]" Map.empty]
  obtain ts where ts: "split_lines input = Some (ts, Map.empty)" "\<forall>t \<in> set ts. kind t = BLANK"
    by (auto simp: split_lines_def)
  have pass2: "parse_block input pte ts [] = ts"
    using blank_parse_block_loop [OF ts(2)] by (simp add: parse_block_def)
  have "print_block input Map.empty ts [] = Some []"
    using blank_print_block_blank [OF ts(2), of 0]
    by (simp add: print_block_def print_block_loop.simps)
  then show ?thesis
    by (simp add: markdown_def ts(1) pass2)
qed

theorem markdown_blank_witness:
  "markdown (tok BLANK 0 0) (wstr '' \<newline>\<newline>'' @ [C_HT, C_LF]) = Some []
   \<and> markdown (tok BLANK 0 0) [] = Some []"
  using markdown_blank [of "wstr '' \<newline>\<newline>'' @ [C_HT, C_LF]" "tok BLANK 0 0"]
    markdown_blank [of "[]" "tok BLANK 0 0"]
  by (simp add: wstr_def ismdwhite_def)


section \<open>General-text escaping\<close>

text \<open>
  The escaping of general text on a list of characters, with the grammar of entities that the
  writer accepts, which is narrower than the character references of hypertext: an entity is
  an ampersand followed by a letter and a run of letters and digits, or by \<open>#\<close> and a run
  of decimal digits, or by \<open>#x\<close> with the small letter \<open>x\<close> and a run of hexadecimal digits,
  each run closed by a semicolon; \<open>entity_length\<close> is the number of characters of the entity
  that begins a list, when one does. The names are not looked up in a table of entities, and
  a numeric reference written with the capital letter \<open>X\<close> is no entity of this grammar.
\<close>

definition entity_alpha :: "wchar \<Rightarrow> bool" where
  "entity_alpha c \<longleftrightarrow> (C_A \<le> c \<and> c \<le> C_Z) \<or> (C_a \<le> c \<and> c \<le> C_z)"

definition entity_run :: "(wchar \<Rightarrow> bool) \<Rightarrow> wstring \<Rightarrow> nat option" where
  "entity_run cls r =
     (let k = length (takeWhile cls r)
      in if 0 < k \<and> k < length r \<and> r ! k = C_semi then Some (k + 1) else None)"

definition entity_length :: "wstring \<Rightarrow> nat option" where
  "entity_length cs =
     (case cs of
        [] \<Rightarrow> None
      | a # r \<Rightarrow>
          if a \<noteq> C_amp then None
          else
            (case r of
               [] \<Rightarrow> None
             | h # r' \<Rightarrow>
                 if h = C_hash then
                   (case r' of
                      [] \<Rightarrow> None
                    | x # r'' \<Rightarrow>
                        if x = C_x then map_option (\<lambda>k. 3 + k) (entity_run ismdxdigit r'')
                        else map_option (\<lambda>k. 2 + k) (entity_run ismddigit r'))
                 else if entity_alpha h then map_option (\<lambda>k. 1 + k) (entity_run ismdalnum r)
                 else None))"

lemma entity_run_bounds: "entity_run cls r = Some k \<Longrightarrow> 0 < k \<and> k \<le> length r"
  by (auto simp: entity_run_def Let_def split: if_splits)

lemma entity_length_bounds: "entity_length cs = Some k \<Longrightarrow> 0 < k \<and> k \<le> length cs"
  by (auto simp: entity_length_def split: list.splits if_splits dest!: entity_run_bounds)

function general_text_escape :: "wstring \<Rightarrow> wstring" where
  "general_text_escape [] = []"
| "general_text_escape (c # cs) =
     (if c = C_amp then
        (case entity_length (c # cs) of
           Some k \<Rightarrow> take k (c # cs) @ general_text_escape (drop k (c # cs))
         | None \<Rightarrow> wstr ''&amp;'' @ general_text_escape cs)
      else if c = C_lt then wstr ''&lt;'' @ general_text_escape cs
      else if c = C_gt then wstr ''&gt;'' @ general_text_escape cs
      else if c = C_dquote then wstr ''&quot;'' @ general_text_escape cs
      else if c = C_squote then wstr ''&#39;'' @ general_text_escape cs
      else c # general_text_escape cs)"
  by pat_completeness auto
termination
  by (relation "measure length") (auto dest!: entity_length_bounds)

declare general_text_escape.simps [simp del]


lemma tbl_row1: "tbl ! 1 ! entity_ccls c = (if entity_alpha c then 2 else if c = C_hash then 3 else 0)"
  unfolding tbl_def entity_ccls_def entity_alpha_def by simp

lemma tbl_row2:
  "tbl ! 2 ! entity_ccls c = (if ismdalnum c then 2 else if c = C_semi then 9 else 0)"
  unfolding tbl_def entity_ccls_def ismdalnum_def ismddigit_def by simp

lemma tbl_row3: "tbl ! 3 ! entity_ccls c = (if ismddigit c then 4 else 0)"
  unfolding tbl_def entity_ccls_def ismddigit_def by simp

lemma tbl_row4:
  "tbl ! 4 ! entity_ccls c = (if ismddigit c then 4 else if c = C_semi then 9 else 0)"
  unfolding tbl_def entity_ccls_def ismddigit_def by simp

lemma tbl_row5: "tbl ! 5 ! entity_ccls c = (if ismdxdigit c then 6 else 0)"
  unfolding tbl_def entity_ccls_def ismdxdigit_def ismddigit_def by simp

lemma tbl_row6:
  "tbl ! 6 ! entity_ccls c = (if ismdxdigit c then 6 else if c = C_semi then 9 else 0)"
  unfolding tbl_def entity_ccls_def ismdxdigit_def ismddigit_def by simp

lemma slice_nth: "e \<le> length buf \<Longrightarrow> s + i < e \<Longrightarrow> slice buf s e ! i = buf ! (s + i)"
  by (simp add: slice_def)

lemma check_html5entity_loop_end:
  "\<not> s < e \<Longrightarrow> check_html5entity_loop buf s0 e s state = (False, s0)"
  by (subst check_html5entity_loop.simps) simp

lemma check_html5entity_loop_step:
  assumes "s < e"
    and "(if 3 = state \<and> C_x = buf ! s then 5 else tbl ! state ! entity_ccls (buf ! s)) = st"
  shows "check_html5entity_loop buf s0 e s state =
     (if 0 = st then (False, s0) else if 9 = st then (True, s + 1)
      else check_html5entity_loop buf s0 e (s + 1) st)"
  using assms by (subst check_html5entity_loop.simps) (simp only: Let_def if_True)

text \<open>The states of the table in which a run of one class is read up to the semicolon.\<close>

lemma check_html5entity_loop_run:
  assumes "e \<le> length buf"
    and "state \<noteq> 0" "state \<noteq> 3" "state \<noteq> 9"
    and row: "\<And>c. tbl ! state ! entity_ccls c
                 = (if cls c then state else if c = C_semi then 9 else 0)"
  shows "check_html5entity_loop buf s0 e s state =
     (let k = length (takeWhile cls (slice buf s e))
      in if s + k < e \<and> buf ! (s + k) = C_semi then (True, s + k + 1) else (False, s0))"
proof (induction "e - s" arbitrary: s rule: less_induct)
  case less
  show ?case
  proof (cases "s < e")
    case False
    then show ?thesis
      by (simp add: check_html5entity_loop_end slice_Nil)
  next
    case True
    then have sl: "slice buf s e = buf ! s # slice buf (s + 1) e"
      using assms(1) by (simp add: slice_Cons)
    have nx: "(if 3 = state \<and> C_x = buf ! s then 5 else tbl ! state ! entity_ccls (buf ! s))
        = (if cls (buf ! s) then state else if buf ! s = C_semi then 9 else 0)"
      using assms(3) row [of "buf ! s"] by simp
    show ?thesis
    proof (cases "cls (buf ! s)")
      case c: True
      have "e - (s + 1) < e - s"
        using True by simp
      from less.hyps [OF this] c assms(2,4) show ?thesis
        unfolding check_html5entity_loop_step [OF True nx] by (simp add: Let_def sl)
    next
      case c: False
      with True show ?thesis
        unfolding check_html5entity_loop_step [OF True nx] by (auto simp: Let_def sl)
    qed
  qed
qed

lemma entity_run_Nil: "\<not> p < e \<Longrightarrow> entity_run cls (slice buf p e) = None"
  by (simp add: entity_run_def slice_Nil)

lemma entity_run_not:
  "e \<le> length buf \<Longrightarrow> p < e \<Longrightarrow> \<not> cls (buf ! p) \<Longrightarrow> entity_run cls (slice buf p e) = None"
  by (simp add: entity_run_def slice_Cons)

lemma entity_run_first:
  assumes "e \<le> length buf" "p < e" "cls (buf ! p)"
  shows "(case entity_run cls (slice buf p e) of Some k \<Rightarrow> (True, p + k) | None \<Rightarrow> (False, s0))
     = (let k = length (takeWhile cls (slice buf (p + 1) e))
        in if p + 1 + k < e \<and> buf ! (p + 1 + k) = C_semi then (True, p + 1 + k + 1)
           else (False, s0))"
proof -
  define k where "k = length (takeWhile cls (slice buf (p + 1) e))"
  have sl: "slice buf p e = buf ! p # slice buf (p + 1) e"
    using assms by (simp add: slice_Cons)
  have tk: "length (takeWhile cls (slice buf p e)) = Suc k"
    using assms(3) by (simp add: sl k_def)
  have len: "length (slice buf p e) = e - p"
    using assms(1) by (simp add: length_slice)
  have nth: "p + 1 + k < e \<Longrightarrow> slice buf p e ! Suc k = buf ! (p + 1 + k)"
    using slice_nth [OF assms(1), of p "Suc k"] by simp
  have lt: "Suc k < e - p \<longleftrightarrow> p + 1 + k < e"
    by auto
  show ?thesis
    unfolding entity_run_def tk len k_def [symmetric] Let_def
    using nth lt by auto
qed

lemma check_html5entity_loop_first:
  assumes "e \<le> length buf"
    and "st \<noteq> 0" "st \<noteq> 3" "st \<noteq> 9"
    and row: "\<And>c. tbl ! st ! entity_ccls c
                 = (if cls c then st else if c = C_semi then 9 else 0)"
    and "p < e" "cls (buf ! p)"
    and "(if 3 = state \<and> C_x = buf ! p then 5 else tbl ! state ! entity_ccls (buf ! p)) = st"
  shows "check_html5entity_loop buf s0 e p state =
     (case entity_run cls (slice buf p e) of Some k \<Rightarrow> (True, p + k) | None \<Rightarrow> (False, s0))"
  unfolding check_html5entity_loop_step [OF assms(6,8)]
    entity_run_first [of e buf p cls s0, OF assms(1,6,7)]
    check_html5entity_loop_run [OF assms(1,2,3,4) row]
  using assms(2,4) by simp

lemma check_html5entity_loop_fail:
  assumes "p < e"
    and "(if 3 = state \<and> C_x = buf ! p then 5 else tbl ! state ! entity_ccls (buf ! p)) = 0"
  shows "check_html5entity_loop buf s0 e p state = (False, s0)"
  unfolding check_html5entity_loop_step [OF assms] by simp

lemma entity_alpha_alnum: "entity_alpha c \<Longrightarrow> ismdalnum c"
  by (auto simp: entity_alpha_def ismdalnum_def)

lemma entity_length_amp: "entity_length [C_amp] = None"
  by (simp add: entity_length_def)

lemma entity_length_hash: "entity_length [C_amp, C_hash] = None"
  by (simp add: entity_length_def)

lemma entity_length_hex:
  "entity_length (C_amp # C_hash # C_x # r)
     = map_option (\<lambda>k. 3 + k) (entity_run ismdxdigit r)"
  by (simp only: entity_length_def list.case simp_thms if_True if_False)

lemma entity_length_dec:
  "x \<noteq> C_x \<Longrightarrow> entity_length (C_amp # C_hash # x # r)
     = map_option (\<lambda>k. 2 + k) (entity_run ismddigit (x # r))"
  by (simp only: entity_length_def list.case simp_thms if_True if_False)

lemma entity_length_named:
  "h \<noteq> C_hash \<Longrightarrow> entity_alpha h \<Longrightarrow> entity_length (C_amp # h # r)
     = map_option (\<lambda>k. 1 + k) (entity_run ismdalnum (h # r))"
  by (simp only: entity_length_def list.case simp_thms if_True if_False)

lemma entity_length_other:
  "h \<noteq> C_hash \<Longrightarrow> \<not> entity_alpha h \<Longrightarrow> entity_length (C_amp # h # r) = None"
  by (simp add: entity_length_def)

lemma entity_length_not_amp: "c \<noteq> C_amp \<Longrightarrow> entity_length (c # r) = None"
  by (simp add: entity_length_def)

lemma check_html5entity_eq:
  assumes "e \<le> length buf"
  shows "check_html5entity buf s e =
     (case entity_length (slice buf s e) of Some k \<Rightarrow> (True, s + k) | None \<Rightarrow> (False, s))"
proof (cases "s < e \<and> C_amp = buf ! s")
  case False
  then show ?thesis
    using assms
    by (cases "s < e") (auto simp: check_html5entity_def entity_length_def slice_Cons slice_Nil)
next
  case amp: True
  then have sl0: "slice buf s e = C_amp # slice buf (s + 1) e"
    using assms by (simp add: slice_Cons)
  have chk: "check_html5entity buf s e = check_html5entity_loop buf s e (s + 1) 1"
    using amp by (simp add: check_html5entity_def)
  show ?thesis
  proof (cases "s + 1 < e")
    case False
    then have nil: "slice buf (s + 1) e = []"
      by (simp add: slice_Nil)
    show ?thesis
      unfolding chk sl0 nil entity_length_amp check_html5entity_loop_end [OF False]
      by simp
  next
    case h: True
    then have sl1: "slice buf (s + 1) e = buf ! (s + 1) # slice buf (s + 1 + 1) e"
      using assms by (rule slice_Cons)
    let ?h = "buf ! (s + 1)"
    show ?thesis
    proof (cases "?h = C_hash")
      case hash: True
      then have nx1: "(if 3 = (1::nat) \<and> C_x = ?h then 5 else tbl ! 1 ! entity_ccls ?h) = 3"
        using tbl_row1 [of ?h] by (simp add: entity_alpha_def)
      have st3: "check_html5entity buf s e = check_html5entity_loop buf s e (s + 1 + 1) 3"
        unfolding chk check_html5entity_loop_step [OF h nx1] by simp
      show ?thesis
      proof (cases "s + 1 + 1 < e")
        case False
        then have nil: "slice buf (s + 1 + 1) e = []"
          by (simp add: slice_Nil)
        show ?thesis
          unfolding st3 sl0 sl1 nil hash entity_length_hash
            check_html5entity_loop_end [OF False]
          by simp
      next
        case x: True
        then have sl2: "slice buf (s + 1 + 1) e
            = buf ! (s + 1 + 1) # slice buf (s + 1 + 1 + 1) e"
          using assms by (rule slice_Cons)
        let ?x = "buf ! (s + 1 + 1)"
        show ?thesis
        proof (cases "?x = C_x")
          case True
          then have nx3: "(if 3 = (3::nat) \<and> C_x = ?x then 5 else tbl ! 3 ! entity_ccls ?x) = 5"
            by simp
          have st5: "check_html5entity buf s e
              = check_html5entity_loop buf s e (s + 1 + 1 + 1) 5"
            unfolding st3 check_html5entity_loop_step [OF x nx3] by simp
          have el: "entity_length (slice buf s e)
              = map_option (\<lambda>k. 3 + k) (entity_run ismdxdigit (slice buf (s + 1 + 1 + 1) e))"
            unfolding sl0 sl1 sl2 hash True by (rule entity_length_hex)
          have "check_html5entity_loop buf s e (s + 1 + 1 + 1) 5
              = (case entity_run ismdxdigit (slice buf (s + 1 + 1 + 1) e) of
                   Some k \<Rightarrow> (True, s + 1 + 1 + 1 + k) | None \<Rightarrow> (False, s))"
          proof (cases "s + 1 + 1 + 1 < e")
            case False
            show ?thesis
              unfolding check_html5entity_loop_end [OF False] entity_run_Nil [OF False]
              by simp
          next
            case d: True
            show ?thesis
            proof (cases "ismdxdigit (buf ! (s + 1 + 1 + 1))")
              case False
              then have "(if 3 = (5::nat) \<and> C_x = buf ! (s + 1 + 1 + 1) then 5
                  else tbl ! 5 ! entity_ccls (buf ! (s + 1 + 1 + 1))) = 0"
                using tbl_row5 [of "buf ! (s + 1 + 1 + 1)"] by simp
              from check_html5entity_loop_fail [OF d this] show ?thesis
                unfolding entity_run_not [of e buf "s + 1 + 1 + 1" ismdxdigit, OF assms d False] by simp
            next
              case True
              then have "(if 3 = (5::nat) \<and> C_x = buf ! (s + 1 + 1 + 1) then 5
                  else tbl ! 5 ! entity_ccls (buf ! (s + 1 + 1 + 1))) = 6"
                using tbl_row5 [of "buf ! (s + 1 + 1 + 1)"] by simp
              from assms _ _ _ tbl_row6 d True this show ?thesis
                by (rule check_html5entity_loop_first) simp_all
            qed
          qed
          then show ?thesis
            unfolding st5 el by (simp split: option.splits)
        next
          case nox: False
          have el: "entity_length (slice buf s e)
              = map_option (\<lambda>k. 2 + k) (entity_run ismddigit (slice buf (s + 1 + 1) e))"
            unfolding sl0 sl1 hash unfolding sl2 using nox by (rule entity_length_dec)
          have "check_html5entity_loop buf s e (s + 1 + 1) 3
              = (case entity_run ismddigit (slice buf (s + 1 + 1) e) of
                   Some k \<Rightarrow> (True, s + 1 + 1 + k) | None \<Rightarrow> (False, s))"
          proof (cases "ismddigit ?x")
            case False
            then have "(if 3 = (3::nat) \<and> C_x = ?x then 5 else tbl ! 3 ! entity_ccls ?x) = 0"
              using nox tbl_row3 [of ?x] by simp
            from check_html5entity_loop_fail [OF x this] show ?thesis
              unfolding entity_run_not [of e buf "s + 1 + 1" ismddigit, OF assms x False] by simp
          next
            case True
            then have "(if 3 = (3::nat) \<and> C_x = ?x then 5 else tbl ! 3 ! entity_ccls ?x) = 4"
              using nox tbl_row3 [of ?x] by simp
            from assms _ _ _ tbl_row4 x True this show ?thesis
              by (rule check_html5entity_loop_first) simp_all
          qed
          then show ?thesis
            unfolding st3 el by (simp split: option.splits)
        qed
      qed
    next
      case nohash: False
      show ?thesis
      proof (cases "entity_alpha ?h")
        case False
        then have "(if 3 = (1::nat) \<and> C_x = ?h then 5 else tbl ! 1 ! entity_ccls ?h) = 0"
          using nohash tbl_row1 [of ?h] by simp
        from check_html5entity_loop_fail [OF h this] show ?thesis
          unfolding chk sl0 sl1 entity_length_other [OF nohash False] by simp
      next
        case True
        then have nx: "(if 3 = (1::nat) \<and> C_x = ?h then 5 else tbl ! 1 ! entity_ccls ?h) = 2"
          using tbl_row1 [of ?h] by simp
        have el: "entity_length (slice buf s e)
            = map_option (\<lambda>k. 1 + k) (entity_run ismdalnum (slice buf (s + 1) e))"
          unfolding sl0 unfolding sl1 using nohash True by (rule entity_length_named)
        have "check_html5entity_loop buf s e (s + 1) 1
            = (case entity_run ismdalnum (slice buf (s + 1) e) of
                 Some k \<Rightarrow> (True, s + 1 + k) | None \<Rightarrow> (False, s))"
          using assms _ _ _ tbl_row2 h entity_alpha_alnum [OF True] nx
          by (rule check_html5entity_loop_first) simp_all
        then show ?thesis
          unfolding chk el by (simp split: option.splits)
      qed
    qed
  qed
qed

text \<open>
  C7, with the grammar of entities stated: on every range of a buffer,
  \<open>print_with_escape_html\<close> appends the general-text escape of the characters of the range.
  An ampersand becomes \<open>&amp;\<close> unless an entity of the grammar above begins at it, which is
  copied verbatim; \<open><\<close>, \<open>>\<close>, the double quote and the single quote become \<open>&lt;\<close>,
  \<open>&gt;\<close>, \<open>&quot;\<close> and \<open>&#39;\<close>; every other character is copied unchanged.
\<close>

theorem print_with_escape_html_spec:
  assumes "e \<le> length buf"
  shows "print_with_escape_html buf s e out = out @ general_text_escape (slice buf s e)"
proof (induction "e - s" arbitrary: s out rule: less_induct)
  case less
  show ?case
  proof (cases "s < e")
    case False
    then show ?thesis
      by (subst print_with_escape_html.simps) (simp add: slice_Nil general_text_escape.simps)
  next
    case True
    then have sl: "slice buf s e = buf ! s # slice buf (Suc s) e"
      using assms slice_Cons [of s e buf] by simp
    have lt: "e - Suc s < e - s"
      using True by simp
    note IH = less.hyps [OF lt]
    show ?thesis
    proof (cases "C_amp = buf ! s")
      case False
      with True show ?thesis
        by (subst print_with_escape_html.simps) (simp add: IH sl general_text_escape.simps)
    next
      case amp: True
      show ?thesis
      proof (cases "entity_length (slice buf s e)")
        case None
        then have "check_html5entity buf s e = (False, s)"
          by (simp add: check_html5entity_eq [OF assms])
        with True amp None show ?thesis
          by (subst print_with_escape_html.simps)
             (simp add: IH sl [symmetric] general_text_escape.simps(2) [of "buf ! s" "slice buf (Suc s) e", folded sl])
      next
        case (Some k)
        then have chk: "check_html5entity buf s e = (True, s + k)"
          by (simp add: check_html5entity_eq [OF assms])
        from Some have k: "0 < k" "k \<le> e - s"
          using entity_length_bounds [of "slice buf s e" k] assms by (simp_all add: length_slice)
        then have lt': "e - (s + k) < e - s"
          using True by simp
        have tk: "slice buf s (s + k) = take k (slice buf s e)"
          using slice_take [of "s + k" e buf s] k True by simp
        have dr: "slice buf (s + k) e = drop k (slice buf s e)"
          by (rule slice_drop)
        have "general_text_escape (slice buf s e)
            = take k (slice buf s e) @ general_text_escape (drop k (slice buf s e))"
          using Some amp general_text_escape.simps(2) [of "buf ! s" "slice buf (Suc s) e", folded sl]
          by simp
        then have rhs: "general_text_escape (slice buf s e)
            = slice buf s (s + k) @ general_text_escape (slice buf (s + k) e)"
          by (simp only: tk dr)
        have "print_with_escape_html buf s e out
            = print_with_escape_html buf (s + k) e (out @ slice buf s (s + k))"
          using True amp chk k by (subst print_with_escape_html.simps) simp
        also have "\<dots> = (out @ slice buf s (s + k)) @ general_text_escape (slice buf (s + k) e)"
          by (rule less.hyps [OF lt'])
        finally show ?thesis
          by (simp only: rhs append_assoc)
      qed
    qed
  qed
qed

theorem print_with_escape_html_spec_witness:
  "print_with_escape_html (wstr ''a<b>&amp;&x &#38;&#x2F;'' @ [C_dquote, C_squote]) 0 25
       (wstr ''<p>'')
     = wstr ''<p>a&lt;b&gt;&amp;&amp;x &#38;&#x2F;&quot;&#39;''"
proof -
  define buf where "buf = wstr ''a<b>&amp;&x &#38;&#x2F;'' @ [C_dquote, C_squote]"
  have len: "25 \<le> length buf"
    by (simp add: buf_def wstr_def)
  have sl: "slice buf 0 25 = buf"
    by (simp add: buf_def wstr_def slice_def)
  have esc: "general_text_escape buf = wstr ''a&lt;b&gt;&amp;&amp;x &#38;&#x2F;&quot;&#39;''"
    unfolding buf_def by code_simp
  have "print_with_escape_html buf 0 25 (wstr ''<p>'') = wstr ''<p>'' @ general_text_escape buf"
    using print_with_escape_html_spec [OF len, of 0 "wstr ''<p>''"] by (simp only: sl)
  then show ?thesis
    unfolding esc unfolding buf_def by (simp add: wstr_def)
qed

text \<open>
  C7, as the claim states it, fails: \<^verbatim>\<open>&#X41;\<close> is a well-formed numeric character
  reference of hypertext, and the writer escapes its ampersand.
\<close>

theorem print_with_escape_html_capital_x:
  "print_with_escape_html (wstr ''&#X41;'') 0 6 [] = wstr ''&amp;#X41;''
   \<and> print_with_escape_html (wstr ''&#x41;'') 0 6 [] = wstr ''&#x41;''"
  by code_simp


section \<open>Reference links and inline links\<close>



























text \<open>
  Link text with a backtick: the code span that starts in the link text of the inline link
  ends inside its parenthesised part, so the inline form is no link, while the reference link
  is one. The link text of the statement below is therefore plain text.
\<close>

lemma reference_link_text_backtick:
  "markdown (tok BLANK 0 0) (wstr ''[b]: u \"t`\"\<newline>\<newline>[a `x][b]\<newline>'')
     = Some (wstr ''<p><a href=\"u\" title=\"t`\">a `x</a></p>\<newline>'')
   \<and> markdown (tok BLANK 0 0) (wstr ''[a `x](u \"t`\")\<newline>'')
     = Some (wstr ''<p>[a <code>x](u &quot;t</code>&quot;)</p>\<newline>'')"
  by code_simp

text \<open>
  A reference link and the inline link written from its entry, inside a paragraph.
\<close>

lemma reference_link_document:
  "markdown (tok BLANK 0 0) (wstr ''[b]: u \"t\"\<newline>\<newline>go [x][b].\<newline>'')
     = Some (wstr ''<p>go <a href=\"u\" title=\"t\">x</a>.</p>\<newline>'')
   \<and> markdown (tok BLANK 0 0) (wstr ''go [x](u \"t\").\<newline>'')
     = Some (wstr ''<p>go <a href=\"u\" title=\"t\">x</a>.</p>\<newline>'')"
  by code_simp



end
